theory Spec2Isabelle
  imports Complex_Main "HOL-Library.Log_Nat"
begin

section \<open>Python values used by apply\_watermark.py\<close>

text \<open>
  Strings are character lists. Exceptions are values of \<open>exn\<close>; every constructor is
  a subclass of Python's \<open>Exception\<close>, so an \<open>except Exception\<close> handler catches all of
  them, and \<open>except UnicodeDecodeError\<close> only the one. A call that may raise returns
  \<open>exn + 'a\<close> with \<open>Inl\<close> the exception.
\<close>

type_synonym path = string

datatype exn =
  OSError | UnicodeDecodeError | ValueError | ZeroDivisionError | OverflowError
| UnidentifiedImageError

text \<open>Truth value of an \<open>Optional[str]\<close>: \<open>None\<close> and the empty string are false.\<close>

fun truthy :: "string option \<Rightarrow> bool" where
  "truthy None = False"
| "truthy (Some s) = (s \<noteq> [])"

text \<open>
  \<open>str.strip()\<close> removes the whitespace characters at both ends. \<open>strip_with\<close> does so
  for any class of characters; \<open>py_isspace\<close> is \<open>str.isspace\<close> on the code points
  below 256 (tab to carriage return, the four separators 28 to 31, space, NEL and
  no-break space).
\<close>

definition strip_with :: "('c \<Rightarrow> bool) \<Rightarrow> 'c list \<Rightarrow> 'c list" where
  "strip_with ws s = rev (dropWhile ws (rev (dropWhile ws s)))"

definition py_isspace :: "char \<Rightarrow> bool" where
  "py_isspace c =
     (let n = (of_char c :: nat)
      in (9 \<le> n \<and> n \<le> 13) \<or> (28 \<le> n \<and> n \<le> 32) \<or> n = 133 \<or> n = 160)"

definition py_strip :: "string \<Rightarrow> string" where
  "py_strip s = strip_with py_isspace s"

text \<open>\<open>str.lower()\<close> on the ASCII letters, which is all the font-family tests need.\<close>

definition lower_char :: "char \<Rightarrow> char" where
  "lower_char c =
     (let n = (of_char c :: nat) in if 65 \<le> n \<and> n \<le> 90 then char_of (n + 32) else c)"

definition lower :: "string \<Rightarrow> string" where
  "lower s = map lower_char s"

text \<open>
  A Python float is an IEEE 754 double. \<open>Finite m k\<close> is the finite double \<open>m * 2^k\<close>
  (one double has several such pairs, and the functions below treat them alike); the
  sign of an infinity plays no part here. \<open>round_double m k\<close> is the double nearest to
  \<open>m * 2^k\<close>, ties going to the even mantissa: the mantissa keeps 53 bits, the exponent
  never goes below that of the subnormal numbers, and a result of \<open>2^1024\<close> or more is
  infinite.
\<close>

datatype double = Finite int int | Infinite | NaN

definition value_of :: "int \<Rightarrow> int \<Rightarrow> real" where
  "value_of m k = real_of_int m * 2 powr real_of_int k"

definition rne :: "int \<Rightarrow> nat \<Rightarrow> int" where
  "rne m d =
     (let q = m div 2 ^ d; r = m mod 2 ^ d
      in if 2 ^ d < 2 * r \<or> (2 * r = 2 ^ d \<and> odd q) then q + 1 else q)"

definition round_double :: "int \<Rightarrow> int \<Rightarrow> double" where
  "round_double m k =
     (let d = max (bitlen \<bar>m\<bar> - 53) (- 1074 - k);
          (m', k') = (if d \<le> 0 then (m, k) else (sgn m * rne \<bar>m\<bar> (nat d), k + d))
      in if m' \<noteq> 0 \<and> 1024 < bitlen \<bar>m'\<bar> + k' then Infinite else Finite m' k')"

text \<open>The product of two floats.\<close>

fun dmul :: "double \<Rightarrow> double \<Rightarrow> double" where
  "dmul (Finite m1 k1) (Finite m2 k2) = round_double (m1 * m2) (k1 + k2)"
| "dmul NaN y = NaN"
| "dmul x NaN = NaN"
| "dmul Infinite (Finite m k) = (if m = 0 then NaN else Infinite)"
| "dmul (Finite m k) Infinite = (if m = 0 then NaN else Infinite)"
| "dmul Infinite Infinite = Infinite"

text \<open>
  The conversion of an \<open>int\<close> that \<open>int * float\<close> makes first; it raises
  \<open>OverflowError\<close> for an integer too large for a float.
\<close>

definition double_of_int :: "int \<Rightarrow> exn + double" where
  "double_of_int i =
     (case round_double i 0 of
        Finite m k \<Rightarrow> Inr (Finite m k)
      | Infinite \<Rightarrow> Inl OverflowError
      | NaN \<Rightarrow> Inr NaN)"

text \<open>
  \<open>int(x)\<close> of a float truncates towards zero; it raises \<open>OverflowError\<close> on an infinity
  and \<open>ValueError\<close> on NaN.
\<close>

definition trunc_pow2 :: "int \<Rightarrow> int \<Rightarrow> int" where
  "trunc_pow2 m k =
     (if 0 \<le> k then m * 2 ^ nat k
      else if 0 \<le> m then m div 2 ^ nat (- k)
      else - ((- m) div 2 ^ nat (- k)))"

fun int_of_double :: "double \<Rightarrow> exn + int" where
  "int_of_double (Finite m k) = Inr (trunc_pow2 m k)"
| "int_of_double Infinite = Inl OverflowError"
| "int_of_double NaN = Inl ValueError"

text \<open>
  \<open>a / b\<close> on two \<open>int\<close>s is the double nearest to the exact quotient. The quotient is
  taken with at least 55 bits and one more bit that records a remainder, which is
  enough for the rounding to come out as on the exact quotient.
\<close>

definition true_divide :: "int \<Rightarrow> int \<Rightarrow> exn + double" where
  "true_divide a b =
     (if b = 0 then Inl ZeroDivisionError
      else
        (let s = nat (max 0 (55 + bitlen \<bar>b\<bar> - bitlen \<bar>a\<bar>));
             num = \<bar>a\<bar> * 2 ^ s;
             q = num div \<bar>b\<bar>;
             sticky = (if num mod \<bar>b\<bar> = 0 then 0 else 1)
         in (case round_double (sgn a * sgn b * (2 * q + sticky)) (- int s - 1) of
               Finite m k \<Rightarrow> Inr (Finite m k)
             | Infinite \<Rightarrow> Inl OverflowError
             | NaN \<Rightarrow> Inr NaN)))"

text \<open>The doubles that Python reads the literals 0.2, 0.15, 0.7 and 0.29 as.\<close>

definition float_0_2 :: double where
  "float_0_2 = Finite 7205759403792794 (- 55)"

definition float_0_15 :: double where
  "float_0_15 = Finite 5404319552844595 (- 55)"

definition float_0_7 :: double where
  "float_0_7 = Finite 6305039478318694 (- 53)"

definition float_0_29 :: double where
  "float_0_29 = Finite 5224175567749775 (- 54)"

text \<open>Decimal rendering of an integer, as an f-string prints it.\<close>

fun str_nat :: "nat \<Rightarrow> string" where
  "str_nat n =
     (if n < 10 then [char_of (48 + n)]
      else str_nat (n div 10) @ [char_of (48 + n mod 10)])"

definition str_int :: "int \<Rightarrow> string" where
  "str_int i = (if i < 0 then CHR ''-'' # str_nat (nat (- i)) else str_nat (nat i))"

section \<open>The outside world\<close>

text \<open>
  Fonts, images and the operating system are reached through library calls. The calls
  whose outcome depends on files or on the rasteriser are fields of an environment
  \<open>env\<close>; each one that may raise returns a sum. In the order of the fields they are
  \<open>os.path.exists\<close>, \<open>open\<close> followed by \<open>read\<close> in an encoding, \<open>ImageFont.truetype\<close>,
  \<open>Image.open\<close>, the pixels of \<open>convert('RGBA')\<close>, the pixels of \<open>resize\<close> with Lanczos
  resampling, the pixels a paste writes for a mask that is not RGBA, \<open>draw.textbbox\<close> at
  \<open>(0, 0)\<close>, the pixels after \<open>draw.text\<close>, the extension \<open>os.path.splitext\<close> returns,
  \<open>os.makedirs\<close> of the directory part of a path, and \<open>Image.save\<close>. The font returned
  by \<open>ImageFont.load_default\<close> is the constructor \<open>DefaultFont\<close>.
\<close>

datatype encoding = Utf8 | SystemDefault

datatype font = FreeTypeFont path int | DefaultFont

type_synonym rgb = "int \<times> int \<times> int"
type_synonym rgba = "nat \<times> nat \<times> nat \<times> nat"

datatype mode = RGBA | RGB | OtherMode

record image =
  mode :: mode
  width :: int
  height :: int
  pixel :: "int \<Rightarrow> int \<Rightarrow> rgba"

record env =
  path_exists :: "path \<Rightarrow> bool"
  read_text :: "encoding \<Rightarrow> path \<Rightarrow> exn + string"
  truetype :: "path \<Rightarrow> int \<Rightarrow> exn + font"
  image_open :: "path \<Rightarrow> exn + image"
  convert_pixels :: "image \<Rightarrow> exn + (int \<Rightarrow> int \<Rightarrow> rgba)"
  resample :: "image \<Rightarrow> int \<times> int \<Rightarrow> exn + (int \<Rightarrow> int \<Rightarrow> rgba)"
  paste_other :: "image \<Rightarrow> image \<Rightarrow> int \<times> int \<Rightarrow> exn + (int \<Rightarrow> int \<Rightarrow> rgba)"
  textbbox :: "string \<Rightarrow> font \<Rightarrow> exn + (int \<times> int \<times> int \<times> int)"
  draw_text :: "image \<Rightarrow> int \<times> int \<Rightarrow> string \<Rightarrow> font \<Rightarrow> rgb \<Rightarrow> exn + (int \<Rightarrow> int \<Rightarrow> rgba)"
  splitext_ext :: "path \<Rightarrow> string"
  makedirs_dirname :: "path \<Rightarrow> exn option"
  save :: "image \<Rightarrow> path \<Rightarrow> exn option"

section \<open>read\_watermark\_text\<close>

text \<open>
  The file is opened and read as UTF-8. A \<open>UnicodeDecodeError\<close> leads to a second read
  in the system encoding, whose every exception yields \<open>None\<close>; any other exception of
  the first read yields \<open>None\<close> at once. The text read is stripped, and an empty result
  becomes \<open>None\<close>.
\<close>

definition read_watermark_text :: "env \<Rightarrow> path \<Rightarrow> string option" where
  "read_watermark_text e text_file_path =
     (case read_text e Utf8 text_file_path of
        Inr content \<Rightarrow>
          (let text = py_strip content in if text \<noteq> [] then Some text else None)
      | Inl err \<Rightarrow>
          if err = UnicodeDecodeError then
            (case read_text e SystemDefault text_file_path of
               Inr content \<Rightarrow>
                 (let text = py_strip content in if text \<noteq> [] then Some text else None)
             | Inl err2 \<Rightarrow> None)
          else None)"

section \<open>load\_font\<close>

text \<open>
  The module keeps one dictionary \<open>_font_cache\<close> for the life of the process. The
  state of the model is that dictionary together with a trace, in the order they were
  made, of the probes of font paths, the calls of the font loader and the calls on a
  drawing context. Messages printed to the console are not modelled.
\<close>

datatype event =
  Exists path
| Truetype path int
| TextBBox string font
| DrawText "int \<times> int" string font rgb

record state =
  font_cache :: "string \<rightharpoonup> font"
  trace :: "event list"

definition emit :: "event \<Rightarrow> state \<Rightarrow> state" where
  "emit ev st = st\<lparr>trace := trace st @ [ev]\<rparr>"

definition times_paths :: "path list" where
  "times_paths =
     [''C:/Windows/Fonts/times.ttf'',
      ''C:/Windows/Fonts/Times.ttf'',
      ''C:/Windows/Fonts/timesnewroman.ttf'',
      ''C:/Windows/Fonts/TimesNewRoman.ttf'',
      ''/usr/share/fonts/truetype/liberation/LiberationSerif-Regular.ttf'',
      ''/usr/share/fonts/truetype/times/Times-Roman.ttf'',
      ''/Library/Fonts/Times New Roman.ttf'',
      ''/System/Library/Fonts/Times.ttc'']"

definition inter_paths :: "path list" where
  "inter_paths =
     [''C:/Windows/Fonts/Inter-Regular.ttf'',
      ''C:/Windows/Fonts/inter.ttf'',
      ''/usr/share/fonts/truetype/inter/Inter-Regular.ttf'',
      ''/usr/share/fonts/Inter-Regular.ttf'',
      ''/Library/Fonts/Inter-Regular.ttf'',
      ''/System/Library/Fonts/Inter-Regular.ttf'',
      ''fonts/Inter-Regular.ttf'',
      ''./Inter-Regular.ttf'']"

definition fallback_fonts :: "path list" where
  "fallback_fonts =
     [''times.ttf'', ''Times.ttf'', ''arial.ttf'', ''Arial.ttf'', ''DejaVuSans.ttf'',
      ''LiberationSans-Regular.ttf'']"

text \<open>
  The loop over the candidate paths of a family: a path is tried only if it exists, the
  first one that loads ends the loop, and a path that fails to load is skipped.
\<close>

fun try_paths :: "env \<Rightarrow> int \<Rightarrow> path list \<Rightarrow> state \<Rightarrow> font option \<times> state" where
  "try_paths e font_size [] st = (None, st)"
| "try_paths e font_size (font_path # rest) st =
     (let st1 = emit (Exists font_path) st in
      if path_exists e font_path then
        (case truetype e font_path font_size of
           Inr f \<Rightarrow> (Some f, emit (Truetype font_path font_size) st1)
         | Inl err \<Rightarrow> try_paths e font_size rest (emit (Truetype font_path font_size) st1))
      else try_paths e font_size rest st1)"

text \<open>The loop over the fallback names, which are handed to the font loader unprobed.\<close>

fun try_fallbacks :: "env \<Rightarrow> int \<Rightarrow> path list \<Rightarrow> state \<Rightarrow> font option \<times> state" where
  "try_fallbacks e font_size [] st = (None, st)"
| "try_fallbacks e font_size (fallback # rest) st =
     (case truetype e fallback font_size of
        Inr f \<Rightarrow> (Some f, emit (Truetype fallback font_size) st)
      | Inl err \<Rightarrow> try_fallbacks e font_size rest (emit (Truetype fallback font_size) st))"

definition cache_key :: "string \<Rightarrow> int \<Rightarrow> string" where
  "cache_key font_name font_size = font_name @ ''_'' @ str_int font_size"

definition load_font :: "env \<Rightarrow> string \<Rightarrow> int \<Rightarrow> state \<Rightarrow> font \<times> state" where
  "load_font e font_name font_size st =
     (case font_cache st (cache_key font_name font_size) of
        Some cached \<Rightarrow> (cached, st)
      | None \<Rightarrow>
          (let (font1, st1) =
                 (if lower font_name \<in> set [''times new roman'', ''times''] then
                    try_paths e font_size times_paths st
                  else if lower font_name = ''inter'' then
                    try_paths e font_size inter_paths st
                  else (None, st));
               (font2, st2) =
                 (case font1 of
                    None \<Rightarrow> try_fallbacks e font_size fallback_fonts st1
                  | Some f \<Rightarrow> (Some f, st1));
               font = (case font2 of None \<Rightarrow> DefaultFont | Some f \<Rightarrow> f)
           in (font, st2\<lparr>font_cache := (font_cache st2)(cache_key font_name font_size \<mapsto> font)\<rparr>)))"

text \<open>The candidate paths probed for a family name.\<close>

definition candidates :: "string \<Rightarrow> path list" where
  "candidates font_name =
     (if lower font_name \<in> set [''times new roman'', ''times''] then times_paths
      else if lower font_name = ''inter'' then inter_paths
      else [])"

section \<open>Pillow primitives\<close>

text \<open>
  Library operations on pixels, as Pillow computes them on 8-bit channels. \<open>div255\<close> is
  its rounded division by 255 and \<open>blend\<close> the mix of two channel values under a mask
  value. A pixel is \<open>(r, g, b, a)\<close>; an image without alpha channel carries \<open>a = 255\<close>.
\<close>

definition shift255 :: "nat \<Rightarrow> nat" where
  "shift255 a = (a div 256 + a) div 256"

definition div255 :: "nat \<Rightarrow> nat" where
  "div255 a = shift255 (a + 128)"

definition blend :: "nat \<Rightarrow> nat \<Rightarrow> nat \<Rightarrow> nat" where
  "blend m in1 in2 = div255 (in1 * (255 - m) + in2 * m)"

fun alpha :: "rgba \<Rightarrow> nat" where
  "alpha (r, g, b, a) = a"

fun blend_px :: "nat \<Rightarrow> rgba \<Rightarrow> rgba \<Rightarrow> rgba" where
  "blend_px m (r1, g1, b1, a1) (r2, g2, b2, a2) =
     (blend m r1 r2, blend m g1 g2, blend m b1 b2, blend m a1 a2)"

text \<open>\<open>Image.new(mode, size, color)\<close>.\<close>

definition new_image :: "mode \<Rightarrow> int \<times> int \<Rightarrow> rgba \<Rightarrow> image" where
  "new_image md dims color =
     \<lparr>mode = md, width = fst dims, height = snd dims, pixel = (\<lambda>x y. color)\<rparr>"

text \<open>
  \<open>dst.paste(src, box, msk)\<close> for images of one pixel layout and a mask that has an
  alpha channel: inside the box the destination is mixed with the source under the
  mask's alpha, outside it is left alone.
\<close>

definition paste_masked :: "image \<Rightarrow> image \<Rightarrow> int \<times> int \<Rightarrow> image \<Rightarrow> image" where
  "paste_masked dst src box msk =
     dst\<lparr>pixel := (\<lambda>x y.
            let sx = x - fst box; sy = y - snd box in
            if 0 \<le> sx \<and> sx < width src \<and> 0 \<le> sy \<and> sy < height src
            then blend_px (alpha (pixel msk sx sy)) (pixel dst x y) (pixel src sx sy)
            else pixel dst x y)\<rparr>"

text \<open>
  \<open>dst.paste(im, box, im)\<close> on an RGBA destination, the image being its own mask. An
  RGBA image is pasted as above; an RGB image has no band that can serve as a mask and
  the call raises \<open>ValueError\<close>. In any other mode the outcome is left to the
  environment, which supplies the pixels written inside the box; a paste never writes
  outside its box.
\<close>

definition in_box :: "int \<times> int \<Rightarrow> image \<Rightarrow> int \<Rightarrow> int \<Rightarrow> bool" where
  "in_box box im x y =
     (fst box \<le> x \<and> x < fst box + width im \<and> snd box \<le> y \<and> y < snd box + height im)"

definition paste_self :: "env \<Rightarrow> image \<Rightarrow> image \<Rightarrow> int \<times> int \<Rightarrow> exn + image" where
  "paste_self e dst im box =
     (case mode im of
        RGBA \<Rightarrow> Inr (paste_masked dst im box im)
      | RGB \<Rightarrow> Inl ValueError
      | OtherMode \<Rightarrow>
          (case paste_other e dst im box of
             Inl err \<Rightarrow> Inl err
           | Inr px \<Rightarrow>
               Inr (dst\<lparr>pixel := (\<lambda>x y. if in_box box im x y then px x y else pixel dst x y)\<rparr>)))"

text \<open>
  \<open>Image.alpha_composite(im1, im2)\<close>: both images must be RGBA and of one size. Where
  the upper pixel has alpha 0 the lower pixel is copied; elsewhere the two are mixed in
  fixed-point arithmetic with 7 extra bits.
\<close>

fun composite_px :: "rgba \<Rightarrow> rgba \<Rightarrow> rgba" where
  "composite_px (dr, dg, db, da) (sr, sg, sb, sa) =
     (if sa = 0 then (dr, dg, db, da)
      else
        (let blnd = da * (255 - sa);
             outa255 = sa * 255 + blnd;
             coef1 = sa * 255 * 255 * 128 div outa255;
             coef2 = 255 * 128 - coef1;
             ch = (\<lambda>s d. shift255 (s * coef1 + d * coef2 + 128 * 128) div 128)
         in (ch sr dr, ch sg dg, ch sb db, shift255 (outa255 + 128))))"

definition alpha_composite :: "image \<Rightarrow> image \<Rightarrow> exn + image" where
  "alpha_composite im1 im2 =
     (if mode im1 \<noteq> RGBA \<or> mode im2 \<noteq> RGBA \<or> width im1 \<noteq> width im2
         \<or> height im1 \<noteq> height im2
      then Inl ValueError
      else Inr (im1\<lparr>pixel := (\<lambda>x y. composite_px (pixel im1 x y) (pixel im2 x y))\<rparr>))"

text \<open>
  The operations whose pixels come from the environment keep the structure Pillow
  guarantees: \<open>resize\<close> returns an image of the requested size in the mode of its
  argument, \<open>convert('RGBA')\<close> changes the mode only, and drawing text changes pixels
  only.
\<close>

definition resize :: "env \<Rightarrow> image \<Rightarrow> int \<times> int \<Rightarrow> exn + image" where
  "resize e im dims =
     (case resample e im dims of
        Inl err \<Rightarrow> Inl err
      | Inr px \<Rightarrow> Inr (im\<lparr>width := fst dims, height := snd dims, pixel := px\<rparr>))"

definition convert_rgba :: "env \<Rightarrow> image \<Rightarrow> exn + image" where
  "convert_rgba e im =
     (case convert_pixels e im of
        Inl err \<Rightarrow> Inl err
      | Inr px \<Rightarrow> Inr (im\<lparr>mode := RGBA, pixel := px\<rparr>))"

definition draw :: "env \<Rightarrow> image \<Rightarrow> int \<times> int \<Rightarrow> string \<Rightarrow> font \<Rightarrow> rgb \<Rightarrow> exn + image" where
  "draw e im xy txt fnt fill =
     (case draw_text e im xy txt fnt fill of
        Inl err \<Rightarrow> Inl err
      | Inr px \<Rightarrow> Inr (im\<lparr>pixel := px\<rparr>))"

section \<open>apply\_text\_watermark\<close>

text \<open>The origin of the text for a position name; the last branch is the default.\<close>

definition text_xy :: "string \<Rightarrow> int \<Rightarrow> int \<times> int \<Rightarrow> int \<times> int \<Rightarrow> int \<times> int" where
  "text_xy position padding dims text_dims =
     (let (image_width, image_height) = dims; (text_width, text_height) = text_dims in
      if position = ''bottom-left'' then
        (padding, image_height - text_height - padding)
      else if position = ''bottom-right'' then
        (image_width - text_width - padding, image_height - text_height - padding)
      else if position = ''top-left'' then
        (padding, padding)
      else if position = ''top-right'' then
        (image_width - text_width - padding, padding)
      else
        (padding, image_height - text_height - padding))"

text \<open>The offsets visited by the two nested \<open>range(-outline_width, outline_width + 1)\<close> loops.\<close>

definition outline_offsets :: "int \<Rightarrow> (int \<times> int) list" where
  "outline_offsets outline_width =
     [(offset_x, offset_y).
        offset_x \<leftarrow> [- outline_width..outline_width],
        offset_y \<leftarrow> [- outline_width..outline_width],
        offset_x \<noteq> 0 \<or> offset_y \<noteq> 0]"

text \<open>
  A sequence of \<open>draw.text\<close> calls on one image. The image is changed in place, so when
  a call raises, the image keeps what the earlier calls have drawn.
\<close>

fun draw_all ::
  "env \<Rightarrow> string \<Rightarrow> font \<Rightarrow> ((int \<times> int) \<times> rgb) list \<Rightarrow> image \<Rightarrow> state
     \<Rightarrow> exn option \<times> image \<times> state" where
  "draw_all e txt fnt [] img st = (None, img, st)"
| "draw_all e txt fnt ((xy, fill) # rest) img st =
     (let st1 = emit (DrawText xy txt fnt fill) st in
      case draw e img xy txt fnt fill of
        Inl err \<Rightarrow> (Some err, img, st1)
      | Inr img1 \<Rightarrow> draw_all e txt fnt rest img1 st1)"

definition draw_plan ::
  "int \<times> int \<Rightarrow> rgb \<Rightarrow> rgb \<Rightarrow> int \<Rightarrow> ((int \<times> int) \<times> rgb) list" where
  "draw_plan xy color outline_color outline_width =
     map (\<lambda>(offset_x, offset_y). ((fst xy + offset_x, snd xy + offset_y), outline_color))
       (outline_offsets outline_width)
     @ [(xy, color)]"

text \<open>
  The result is the exception raised, if any, the image as the calls left it, and the
  state.
\<close>

definition apply_text_watermark ::
  "env \<Rightarrow> image \<Rightarrow> string \<Rightarrow> font \<Rightarrow> string \<Rightarrow> int \<Rightarrow> rgb \<Rightarrow> rgb \<Rightarrow> int \<Rightarrow> state
     \<Rightarrow> exn option \<times> image \<times> state" where
  "apply_text_watermark e img txt fnt position padding color outline_color outline_width st =
     (let st1 = emit (TextBBox txt fnt) st in
      case textbbox e txt fnt of
        Inl err \<Rightarrow> (Some err, img, st1)
      | Inr (x0, y0, x1, y1) \<Rightarrow>
          (let text_width = x1 - x0;
               text_height = y1 - y0;
               xy = text_xy position padding (width img, height img) (text_width, text_height)
           in draw_all e txt fnt (draw_plan xy color outline_color outline_width) img st1))"

section \<open>apply\_watermark\<close>

text \<open>The arguments of \<open>apply_watermark\<close>, and the defaults of the optional ones.\<close>

record params =
  image_path :: path
  watermark_path :: "path option"
  output_path :: path
  scale_factor :: double
  padding :: int
  text_watermark :: "string option"
  font_size :: int
  text_color :: rgb
  text_padding :: int
  text_outline_color :: rgb
  text_outline_width :: int

definition default_params :: "path \<Rightarrow> path option \<Rightarrow> path \<Rightarrow> params" where
  "default_params ip wp outp =
     \<lparr>image_path = ip, watermark_path = wp, output_path = outp,
      scale_factor = float_0_15, padding = 10, text_watermark = None, font_size = 40,
      text_color = (255, 255, 255), text_padding = 20, text_outline_color = (0, 0, 0),
      text_outline_width = 2\<rparr>"

text \<open>
  The size of the resized watermark. The width is \<open>int(base_image.width * scale_factor)\<close>:
  the base width becomes a float, the product is a float, and \<open>int\<close> truncates it. The
  height is \<open>int(watermark_width * watermark.height / watermark.width)\<close>: an exact
  product of integers, their quotient as a float, truncated.
\<close>

definition watermark_size :: "int \<Rightarrow> double \<Rightarrow> int \<times> int \<Rightarrow> exn + int \<times> int" where
  "watermark_size base_width scale wm_size =
     (case double_of_int base_width of
        Inl err \<Rightarrow> Inl err
      | Inr w \<Rightarrow>
          (case int_of_double (dmul w scale) of
             Inl err \<Rightarrow> Inl err
           | Inr watermark_width \<Rightarrow>
               (case true_divide (watermark_width * snd wm_size) (fst wm_size) of
                  Inl err \<Rightarrow> Inl err
                | Inr ratio \<Rightarrow>
                    (case int_of_double ratio of
                       Inl err \<Rightarrow> Inl err
                     | Inr watermark_height \<Rightarrow> Inr (watermark_width, watermark_height)))))"

definition watermark_position :: "int \<times> int \<Rightarrow> int \<times> int \<Rightarrow> int \<Rightarrow> int \<times> int" where
  "watermark_position base_size new_size pad =
     (fst base_size - fst new_size - pad, snd base_size - snd new_size - pad)"

text \<open>The transparent layer of the size of the base, with the resized watermark pasted.\<close>

definition watermark_layer :: "env \<Rightarrow> image \<Rightarrow> image \<Rightarrow> int \<times> int \<Rightarrow> exn + image" where
  "watermark_layer e base_image resized position =
     paste_self e (new_image RGBA (width base_image, height base_image) (0, 0, 0, 0))
       resized position"

text \<open>The body of the image-watermark branch, entered when the path exists.\<close>

definition add_image_watermark ::
  "env \<Rightarrow> image \<Rightarrow> image \<Rightarrow> path \<Rightarrow> double \<Rightarrow> int \<Rightarrow> exn + image" where
  "add_image_watermark e base_image output_image wpath scale pad =
     (case image_open e wpath of
        Inl err \<Rightarrow> Inl err
      | Inr watermark \<Rightarrow>
          (case watermark_size (width base_image) scale (width watermark, height watermark) of
             Inl err \<Rightarrow> Inl err
           | Inr new_size \<Rightarrow>
               (case resize e watermark new_size of
                  Inl err \<Rightarrow> Inl err
                | Inr resized \<Rightarrow>
                    (case watermark_layer e base_image resized
                            (watermark_position (width base_image, height base_image) new_size pad) of
                       Inl err \<Rightarrow> Inl err
                     | Inr transparent \<Rightarrow> alpha_composite output_image transparent))))"

definition overlay_stage :: "env \<Rightarrow> params \<Rightarrow> image \<Rightarrow> exn + image" where
  "overlay_stage e p base_image =
     (if truthy (watermark_path p) \<and> path_exists e (the (watermark_path p)) then
        add_image_watermark e base_image base_image (the (watermark_path p))
          (scale_factor p) (padding p)
      else Inr base_image)"

text \<open>
  The text branch and its \<open>try\<close>: whatever \<open>load_font\<close> or \<open>apply_text_watermark\<close>
  raises is caught, and the pipeline goes on with the image as it is.
\<close>

definition text_stage :: "env \<Rightarrow> params \<Rightarrow> image \<Rightarrow> state \<Rightarrow> image \<times> state" where
  "text_stage e p output_image st =
     (if truthy (text_watermark p) then
        (let (fnt, st1) = load_font e ''Times New Roman'' (font_size p) st;
             (raised, img, st2) =
               apply_text_watermark e output_image (the (text_watermark p)) fnt ''bottom-left''
                 (text_padding p) (text_color p) (text_outline_color p)
                 (text_outline_width p) st1
         in (img, st2))
      else (output_image, st))"

text \<open>
  For a JPEG destination the image is flattened on white under its own alpha. Then the
  output directory is created and the image saved; the result is the image saved.
\<close>

definition flatten_white :: "image \<Rightarrow> image" where
  "flatten_white output_image =
     output_image\<lparr>mode := RGB,
       pixel := (\<lambda>x y. case pixel output_image x y of
                   (r, g, b, a) \<Rightarrow> (blend a 255 r, blend a 255 g, blend a 255 b, 255))\<rparr>"

definition save_output :: "env \<Rightarrow> path \<Rightarrow> image \<Rightarrow> exn + image" where
  "save_output e outp output_image =
     (let output_extension = lower (splitext_ext e outp);
          final_image =
            (if output_extension \<in> set [''.jpg'', ''.jpeg''] then flatten_white output_image
             else output_image)
      in case makedirs_dirname e outp of
           Some err \<Rightarrow> Inl err
         | None \<Rightarrow>
             (case save e final_image outp of
                Some err \<Rightarrow> Inl err
              | None \<Rightarrow> Inr final_image))"

definition apply_watermark :: "env \<Rightarrow> params \<Rightarrow> state \<Rightarrow> (exn + image) \<times> state" where
  "apply_watermark e p st =
     (case image_open e (image_path p) of
        Inl err \<Rightarrow> (Inl err, st)
      | Inr opened \<Rightarrow>
          (case (if mode opened \<noteq> RGBA then convert_rgba e opened else Inr opened) of
             Inl err \<Rightarrow> (Inl err, st)
           | Inr base_image \<Rightarrow>
               (case overlay_stage e p base_image of
                  Inl err \<Rightarrow> (Inl err, st)
                | Inr output_image \<Rightarrow>
                    (let (img, st1) = text_stage e p output_image st
                     in (save_output e (output_path p) img, st1)))))"

section \<open>A sample environment\<close>

text \<open>
  One concrete world on which the functions can be run: a 1000 by 800 photograph, a 400
  by 300 logo whose left half is transparent, a file that exists but is no image, a text
  file, and a single installed font. Its resampling takes the nearest pixel, its text
  box is ten pixels per character and twelve high, and its \<open>draw.text\<close> marks the
  origin of the text.
\<close>

definition liberation_serif :: path where
  "liberation_serif = ''/usr/share/fonts/truetype/liberation/LiberationSerif-Regular.ttf''"

definition sample_photo :: image where
  "sample_photo =
     \<lparr>mode = RGBA, width = 1000, height = 800, pixel = (\<lambda>x y. (10, 20, 30, 255))\<rparr>"

definition sample_logo :: image where
  "sample_logo =
     \<lparr>mode = RGBA, width = 400, height = 300,
      pixel = (\<lambda>x y. if x < 200 then (0, 0, 0, 0) else (200, 0, 0, 255))\<rparr>"

definition sample_env :: env where
  "sample_env =
     \<lparr>path_exists = (\<lambda>p. p \<in> set [''in/photo.png'', ''in/photo.txt'', ''logo.png'',
                                     ''broken.png'', liberation_serif]),
      read_text = (\<lambda>enc p. if p = ''in/photo.txt'' then Inr ''  PROOF  '' else Inl OSError),
      truetype = (\<lambda>p sz. if p = liberation_serif then Inr (FreeTypeFont p sz) else Inl OSError),
      image_open = (\<lambda>p. if p = ''in/photo.png'' then Inr sample_photo
                          else if p = ''logo.png'' then Inr sample_logo
                          else if p = ''broken.png'' then Inl UnidentifiedImageError
                          else Inl OSError),
      convert_pixels = (\<lambda>im. Inr (pixel im)),
      resample = (\<lambda>im dims. if fst dims < 1 \<or> snd dims < 1 then Inl ValueError
                     else Inr (\<lambda>x y. pixel im (x * width im div fst dims)
                                               (y * height im div snd dims))),
      paste_other = (\<lambda>dst im box. Inl ValueError),
      textbbox = (\<lambda>t fnt. Inr (0, 3, 10 * int (length t), 15)),
      draw_text = (\<lambda>im xy t fnt fill. Inr (\<lambda>x y.
                     if (x, y) = xy
                     then (nat (fst fill), nat (fst (snd fill)), nat (snd (snd fill)), 255)
                     else pixel im x y)),
      splitext_ext = (\<lambda>p. drop (length p - 4) p),
      makedirs_dirname = (\<lambda>p. None),
      save = (\<lambda>im p. None)\<rparr>"

definition no_fonts_env :: env where
  "no_fonts_env = sample_env\<lparr>truetype := (\<lambda>p sz. Inl OSError)\<rparr>"

definition fresh :: state where
  "fresh = \<lparr>font_cache = Map.empty, trace = []\<rparr>"

definition sample_params :: params where
  "sample_params =
     (default_params ''in/photo.png'' (Some ''missing.png'') ''out/photo.png'')
       \<lparr>text_watermark := Some ''PROOF''\<rparr>"

definition sample_resized :: image where
  "sample_resized =
     sample_logo\<lparr>width := 200, height := 150,
       pixel := (\<lambda>x y. pixel sample_logo (x * width sample_logo div 200)
                                            (y * height sample_logo div 150))\<rparr>"

text \<open>The trace event of one planned \<open>draw.text\<close> call.\<close>

definition draw_event :: "string \<Rightarrow> font \<Rightarrow> (int \<times> int) \<times> rgb \<Rightarrow> event" where
  "draw_event t fnt d = DrawText (fst d) t fnt (snd d)"

section \<open>The sample environment, field by field\<close>

lemma sample_env_path_exists:
  "path_exists sample_env p =
     (p \<in> set [''in/photo.png'', ''in/photo.txt'', ''logo.png'', ''broken.png'', liberation_serif])"
  by (simp add: sample_env_def)

lemma sample_env_truetype:
  "truetype sample_env p sz =
     (if p = liberation_serif then Inr (FreeTypeFont p sz) else Inl OSError)"
  by (simp add: sample_env_def)

lemma sample_env_image_open:
  "image_open sample_env p =
     (if p = ''in/photo.png'' then Inr sample_photo
      else if p = ''logo.png'' then Inr sample_logo
      else if p = ''broken.png'' then Inl UnidentifiedImageError
      else Inl OSError)"
  by (simp add: sample_env_def)

lemma sample_env_textbbox: "textbbox sample_env t fnt = Inr (0, 3, 10 * int (length t), 15)"
  by (simp add: sample_env_def)

lemma sample_env_draw_text: "\<exists>px. draw_text sample_env im xy t fnt fill = Inr px"
  by (simp add: sample_env_def)

lemma sample_env_resample:
  "resample sample_env im dims =
     (if fst dims < 1 \<or> snd dims < 1 then Inl ValueError
      else Inr (\<lambda>x y. pixel im (x * width im div fst dims) (y * height im div snd dims)))"
  by (simp add: sample_env_def)

lemma sample_env_save: "makedirs_dirname sample_env p = None" "save sample_env im p = None"
  by (simp_all add: sample_env_def)

section \<open>Properties of read\_watermark\_text\<close>

lemma strip_with_hd: "strip_with ws s \<noteq> [] \<Longrightarrow> \<not> ws (hd (strip_with ws s))"
proof -
  assume ne: "strip_with ws s \<noteq> []"
  let ?t = "dropWhile ws s"
  have t_ne: "?t \<noteq> []"
    using ne unfolding strip_with_def by (cases "dropWhile ws s") auto
  then have h: "\<not> ws (hd ?t)" by (rule hd_dropWhile)
  have "rev ?t = takeWhile ws (rev ?t) @ dropWhile ws (rev ?t)" by simp
  then have "?t = rev (dropWhile ws (rev ?t)) @ rev (takeWhile ws (rev ?t))"
    by (metis rev_append rev_rev_ident)
  then have "hd ?t = hd (strip_with ws s)"
    using ne unfolding strip_with_def by (metis hd_append2)
  then show ?thesis using h by simp
qed

lemma strip_with_last: "strip_with ws s \<noteq> [] \<Longrightarrow> \<not> ws (last (strip_with ws s))"
proof -
  assume ne: "strip_with ws s \<noteq> []"
  let ?r = "dropWhile ws (rev (dropWhile ws s))"
  have "?r \<noteq> []" using ne by (simp add: strip_with_def)
  then have "\<not> ws (hd ?r)" by (rule hd_dropWhile)
  moreover have "last (rev ?r) = hd ?r" using \<open>?r \<noteq> []\<close> by (simp add: last_rev)
  ultimately show ?thesis by (simp add: strip_with_def)
qed

text \<open>
  C10. \<open>read_watermark_text\<close> has no exceptional result, never returns the empty string,
  and a string it returns neither starts nor ends with a whitespace character.
\<close>

theorem read_watermark_text_stripped:
  "read_watermark_text e p \<noteq> Some [] \<and>
   (\<forall>t. read_watermark_text e p = Some t \<longrightarrow>
      t \<noteq> [] \<and> \<not> py_isspace (hd t) \<and> \<not> py_isspace (last t))"
proof -
  have key: "\<And>c t. (let text = py_strip c in if text \<noteq> [] then Some text else None) = Some t
                \<Longrightarrow> t \<noteq> [] \<and> \<not> py_isspace (hd t) \<and> \<not> py_isspace (last t)"
    by (auto simp: Let_def py_strip_def strip_with_hd strip_with_last split: if_splits)
  have "\<And>t. read_watermark_text e p = Some t \<Longrightarrow>
          t \<noteq> [] \<and> \<not> py_isspace (hd t) \<and> \<not> py_isspace (last t)"
    unfolding read_watermark_text_def
    by (auto split: sum.splits if_splits dest!: key)
  then show ?thesis by blast
qed

theorem read_watermark_text_stripped_witness:
  "read_watermark_text sample_env ''in/photo.txt'' = Some ''PROOF'' \<and>
   \<not> py_isspace (CHR ''P'') \<and> \<not> py_isspace (CHR ''F'')"
proof -
  have r: "read_watermark_text sample_env ''in/photo.txt'' = Some ''PROOF''"
    by (simp add: read_watermark_text_def sample_env_def py_strip_def strip_with_def
        py_isspace_def)
  show ?thesis
    using read_watermark_text_stripped[of sample_env "''in/photo.txt''"] r by simp
qed

section \<open>Properties of load\_font\<close>

lemma try_paths_none:
  "\<forall>p \<in> set ps. path_exists e p \<longrightarrow> isl (truetype e p sz) \<Longrightarrow> fst (try_paths e sz ps st) = None"
  by (induction ps arbitrary: st) (auto simp: Let_def split: sum.splits)

lemma try_fallbacks_none:
  "\<forall>p \<in> set ps. isl (truetype e p sz) \<Longrightarrow> fst (try_fallbacks e sz ps st) = None"
  by (induction ps arbitrary: st) (auto split: sum.splits)

lemma load_font_cached:
  "font_cache st (cache_key n sz) = Some f \<Longrightarrow> load_font e n sz st = (f, st)"
  by (simp add: load_font_def)

lemma load_font_stores:
  "load_font e n sz st = (f, st') \<Longrightarrow> font_cache st' (cache_key n sz) = Some f"
  by (auto simp: load_font_def Let_def split: option.splits prod.splits if_splits)

lemma load_font_default:
  assumes miss: "font_cache st (cache_key n sz) = None"
    and cand: "\<forall>p \<in> set (candidates n). path_exists e p \<longrightarrow> isl (truetype e p sz)"
    and fall: "\<forall>p \<in> set fallback_fonts. isl (truetype e p sz)"
  shows "fst (load_font e n sz st) = DefaultFont"
proof -
  obtain font1 st1 where c1: "(if lower n \<in> set [''times new roman'', ''times''] then
                    try_paths e sz times_paths st
                  else if lower n = ''inter'' then
                    try_paths e sz inter_paths st
                  else (None, st)) = (font1, st1)"
    by (metis surj_pair)
  have f1: "font1 = None"
  proof -
    have "fst (try_paths e sz (candidates n) st) = None"
      using cand by (rule try_paths_none)
    then show ?thesis using c1 by (auto simp: candidates_def split: if_splits)
  qed
  have f2: "fst (try_fallbacks e sz fallback_fonts st1) = None"
    using fall by (rule try_fallbacks_none)
  obtain font2 st2 where c2: "try_fallbacks e sz fallback_fonts st1 = (font2, st2)"
    by (metis surj_pair)
  then have "font2 = None" using f2 by simp
  then show ?thesis
    using miss c1 c2 f1 unfolding load_font_def by (simp del: set_simps)
qed

text \<open>
  C7. \<open>load_font\<close> always returns a font: every exception of the font loader is caught
  inside it, so it has no exceptional result. When the key is not cached, no candidate
  path of the family loads and no fallback loads, the font returned is the built-in
  default. A second call with the same family and size returns the font of the first
  call and leaves the state as it was, trace included: nothing is probed again. The same
  holds in any later state that still holds the entry.
\<close>

theorem load_font_total_default_cached:
  "(\<exists>f st'. load_font e n sz st = (f, st') \<and> load_font e n sz st' = (f, st')) \<and>
   (\<forall>f st2. font_cache st2 (cache_key n sz) = Some f \<longrightarrow> load_font e n sz st2 = (f, st2)) \<and>
   (font_cache st (cache_key n sz) = None \<and>
    (\<forall>p \<in> set (candidates n). path_exists e p \<longrightarrow> isl (truetype e p sz)) \<and>
    (\<forall>p \<in> set fallback_fonts. isl (truetype e p sz))
    \<longrightarrow> fst (load_font e n sz st) = DefaultFont)"
proof -
  obtain f st' where r: "load_font e n sz st = (f, st')" by (metis surj_pair)
  then have "load_font e n sz st' = (f, st')"
    by (intro load_font_cached load_font_stores)
  with r have first: "\<exists>f st'. load_font e n sz st = (f, st') \<and> load_font e n sz st' = (f, st')"
    by blast
  have later: "\<forall>f st2. font_cache st2 (cache_key n sz) = Some f
                 \<longrightarrow> load_font e n sz st2 = (f, st2)"
    using load_font_cached by blast
  show ?thesis using first later load_font_default by blast
qed

theorem load_font_total_default_cached_witness:
  "font_cache fresh (cache_key ''Inter'' 40) = None \<and>
   fst (load_font no_fonts_env ''Inter'' 40 fresh) = DefaultFont"
  using load_font_total_default_cached[of no_fonts_env "''Inter''" 40 fresh]
  by (simp add: fresh_def no_fonts_env_def)

section \<open>Properties of apply\_text\_watermark\<close>

lemma trace_emit: "trace (emit ev st) = trace st @ [ev]"
  by (simp add: emit_def)

lemma font_cache_emit: "font_cache (emit ev st) = font_cache st"
  by (simp add: emit_def)

lemma draw_all_trace:
  "draw_all e txt fnt ops img st = (r, img', st') \<Longrightarrow>
     \<exists>n \<le> length ops. trace st' = trace st @ map (draw_event txt fnt) (take n ops)
        \<and> (r = None \<longrightarrow> n = length ops)"
proof (induction ops arbitrary: img st)
  case Nil
  then show ?case by simp
next
  case (Cons op ops)
  obtain xy fill where op: "op = (xy, fill)" by (cases op)
  let ?st1 = "emit (DrawText xy txt fnt fill) st"
  show ?case
  proof (cases "draw e img xy txt fnt fill")
    case (Inl err)
    then have "r = Some err" "trace st' = trace st @ [DrawText xy txt fnt fill]"
      using Cons.prems op by (auto simp: Let_def trace_emit)
    then have "trace st' = trace st @ map (draw_event txt fnt) (take 1 (op # ops)) \<and> (r = None \<longrightarrow> (1::nat) = length (op # ops))"
      using op by (simp add: draw_event_def)
    then show ?thesis by (intro exI[of _ 1]) simp
  next
    case (Inr img1)
    then have "draw_all e txt fnt ops img1 ?st1 = (r, img', st')"
      using Cons.prems op by (simp add: Let_def)
    from Cons.IH[OF this] obtain n where n: "n \<le> length ops"
      "trace st' = trace ?st1 @ map (draw_event txt fnt) (take n ops)"
      "r = None \<longrightarrow> n = length ops" by blast
    have "trace st' = trace st @ map (draw_event txt fnt) (take (Suc n) (op # ops))"
      using n(2) op by (simp add: trace_emit draw_event_def)
    then show ?thesis using n(1,3) by (intro exI[of _ "Suc n"]) simp
  qed
qed

lemma draw_all_done:
  "draw_all e txt fnt ops img st = (None, img', st') \<Longrightarrow>
     trace st' = trace st @ map (draw_event txt fnt) ops"
  using draw_all_trace[of e _ fnt ops img st None img' st'] by auto

lemma comprehension_filter:
  "concat (map (\<lambda>x. concat (map (\<lambda>y. if P x y then [(x, y)] else []) ys)) xs) =
     filter (\<lambda>(x, y). P x y) (List.product xs ys)"
proof (induction xs)
  case Nil
  then show ?case by simp
next
  case (Cons x xs)
  have "concat (map (\<lambda>y. if P x y then [(x, y)] else []) ys) =
          filter (\<lambda>(x, y). P x y) (map (Pair x) ys)"
    by (induction ys) auto
  then show ?case using Cons by simp
qed

lemma outline_offsets_filter:
  "outline_offsets w = filter (\<lambda>(x, y). x \<noteq> 0 \<or> y \<noteq> 0) (List.product [- w..w] [- w..w])"
  unfolding outline_offsets_def by (rule comprehension_filter)


lemma outline_offsets_set: "set (outline_offsets w) = {- w..w} \<times> {- w..w} - {(0, 0)}"
  by (auto simp: outline_offsets_filter)

lemma outline_offsets_distinct: "distinct (outline_offsets w)"
  by (simp add: outline_offsets_filter distinct_product)

lemma outline_offsets_length:
  assumes "0 \<le> w"
  shows "int (length (outline_offsets w)) = (2 * w + 1)\<^sup>2 - 1"
proof -
  have "length (outline_offsets w) = card (set (outline_offsets w))"
    using outline_offsets_distinct by (simp add: distinct_card)
  also have "\<dots> = card ({- w..w} \<times> {- w..w}) - 1"
    using assms by (simp add: outline_offsets_set)
  also have "\<dots> = nat (2 * w + 1) * nat (2 * w + 1) - 1"
    by (simp add: card_cartesian_product)
  finally have "length (outline_offsets w) = nat (2 * w + 1) * nat (2 * w + 1) - 1" .
  moreover have "1 \<le> nat (2 * w + 1) * nat (2 * w + 1)" using assms
    by (metis One_nat_def Suc_leI mult_pos_pos zero_less_nat_eq add.commute add_pos_nonneg mult_nonneg_nonneg zero_less_one zero_le_numeral)
  ultimately have "int (length (outline_offsets w)) = int (nat (2 * w + 1) * nat (2 * w + 1)) - 1"
    by linarith
  then show ?thesis using assms by (simp add: power2_eq_square)
qed

lemma outline_offsets_zero: "outline_offsets 0 = []"
  by (simp add: outline_offsets_def upto.simps)

lemma apply_text_watermark_unfold:
  "textbbox e t fnt = Inr (x0, y0, x1, y1) \<Longrightarrow>
   apply_text_watermark e img t fnt pos pad c oc w st =
     draw_all e t fnt (draw_plan (text_xy pos pad (width img, height img) (x1 - x0, y1 - y0)) c oc w)
       img (emit (TextBBox t fnt) st)"
  by (simp add: apply_text_watermark_def Let_def)

lemma map_draw_plan:
  "map (draw_event t fnt) (draw_plan (x, y) c oc w) =
     map (\<lambda>(dx, dy). DrawText (x + dx, y + dy) t fnt oc) (outline_offsets w) @ [DrawText (x, y) t fnt c]"
  by (simp add: draw_plan_def draw_event_def comp_def case_prod_beta)

lemma apply_text_watermark_done:
  assumes "textbbox e t fnt = Inr (x0, y0, x1, y1)"
    and "text_xy pos pad (width img, height img) (x1 - x0, y1 - y0) = (x, y)"
    and "apply_text_watermark e img t fnt pos pad c oc w st = (None, img', st')"
  shows "trace st' = trace st @ [TextBBox t fnt]
           @ map (\<lambda>(dx, dy). DrawText (x + dx, y + dy) t fnt oc) (outline_offsets w)
           @ [DrawText (x, y) t fnt c]"
proof -
  have "draw_all e t fnt (draw_plan (x, y) c oc w) img (emit (TextBBox t fnt) st) = (None, img', st')"
    using assms by (simp add: apply_text_watermark_unfold)
  then have "trace st' = trace (emit (TextBBox t fnt) st) @ map (draw_event t fnt) (draw_plan (x, y) c oc w)"
    by (rule draw_all_done)
  then show ?thesis by (simp add: trace_emit map_draw_plan)
qed

lemma apply_text_watermark_fill_only:
  assumes "textbbox e t fnt = Inr (x0, y0, x1, y1)"
    and "text_xy pos pad (width img, height img) (x1 - x0, y1 - y0) = (x, y)"
    and "apply_text_watermark e img t fnt pos pad c oc 0 st = (r, img', st')"
  shows "trace st' = trace st @ [TextBBox t fnt, DrawText (x, y) t fnt c] \<and>
         draw e img (x, y) t fnt c = (case r of None \<Rightarrow> Inr img' | Some err \<Rightarrow> Inl err)"
proof -
  have "draw_all e t fnt [((x, y), c)] img (emit (TextBBox t fnt) st) = (r, img', st')"
    using assms by (simp add: apply_text_watermark_unfold draw_plan_def outline_offsets_zero)
  then show ?thesis
    by (auto simp: Let_def trace_emit split: sum.splits)
qed

lemma draw_all_succeeds:
  assumes "\<And>im xy c. \<exists>px. draw_text e im xy t fnt c = Inr px"
  shows "fst (draw_all e t fnt ops img st) = None"
proof (induction ops arbitrary: img st)
  case Nil
  then show ?case by simp
next
  case (Cons d ops)
  obtain xy fill where d: "d = (xy, fill)" by (cases d)
  obtain px where "draw_text e img xy t fnt fill = Inr px" using assms by blast
  then show ?case using Cons d by (simp add: Let_def draw_def)
qed

lemma sample_text_succeeds:
  "fst (apply_text_watermark sample_env img t fnt pos pad c oc w st) = None"
  using draw_all_succeeds[of sample_env t fnt, OF sample_env_draw_text]
  by (simp add: apply_text_watermark_def Let_def sample_env_textbbox)

text \<open>
  C4. Let the text box be measured and \<open>(x, y)\<close> be the origin. For \<open>w \<ge> 0\<close> the outline
  loop visits \<open>(2w+1)\<^sup>2 - 1\<close> offsets, all different: every pair in \<open>[-w, w]\<close> squared
  but \<open>(0, 0)\<close>. A call that returns without exception has made, after the measurement,
  one draw in the outline colour at each of these offsets from the origin and then, last,
  one draw in the fill colour at the origin. With outline width 0 the only draw is the
  fill at the origin, and the image returned is the image that single draw produces.
\<close>

theorem text_outline_then_fill:
  assumes "textbbox e t fnt = Inr (x0, y0, x1, y1)"
    and "text_xy pos pad (width img, height img) (x1 - x0, y1 - y0) = (x, y)"
  shows "(0 \<le> w \<longrightarrow> int (length (outline_offsets w)) = (2 * w + 1)\<^sup>2 - 1) \<and>
         distinct (outline_offsets w) \<and>
         set (outline_offsets w) = {- w..w} \<times> {- w..w} - {(0, 0)} \<and>
         (apply_text_watermark e img t fnt pos pad c oc w st = (None, img', st') \<longrightarrow>
            trace st' = trace st @ [TextBBox t fnt]
              @ map (\<lambda>(dx, dy). DrawText (x + dx, y + dy) t fnt oc) (outline_offsets w)
              @ [DrawText (x, y) t fnt c]) \<and>
         (apply_text_watermark e img t fnt pos pad c oc 0 st = (r, img0, st0) \<longrightarrow>
            trace st0 = trace st @ [TextBBox t fnt, DrawText (x, y) t fnt c] \<and>
            draw e img (x, y) t fnt c = (case r of None \<Rightarrow> Inr img0 | Some err \<Rightarrow> Inl err))"
  using assms outline_offsets_length[of w] outline_offsets_distinct[of w] outline_offsets_set[of w]
    apply_text_watermark_done[OF assms, of c oc w st img' st']
    apply_text_watermark_fill_only[OF assms, of c oc st r img0 st0]
  by blast

theorem text_outline_then_fill_witness:
  "textbbox sample_env ''PROOF'' DefaultFont = Inr (0, 3, 50, 15) \<and>
   text_xy ''bottom-left'' 20 (width sample_photo, height sample_photo) (50 - 0, 15 - 3)
     = (20, 768) \<and>
   fst (apply_text_watermark sample_env sample_photo ''PROOF'' DefaultFont ''bottom-left'' 20
          (255, 255, 255) (0, 0, 0) 2 fresh) = None \<and>
   (0::int) \<le> 2 \<and> int (length (outline_offsets 2)) = 24 \<and>
   length (trace (snd (snd (apply_text_watermark sample_env sample_photo ''PROOF'' DefaultFont
          ''bottom-left'' 20 (255, 255, 255) (0, 0, 0) 2 fresh)))) = 26 \<and>
   last (trace (snd (snd (apply_text_watermark sample_env sample_photo ''PROOF'' DefaultFont
          ''bottom-left'' 20 (255, 255, 255) (0, 0, 0) 2 fresh))))
     = DrawText (20, 768) ''PROOF'' DefaultFont (255, 255, 255)"
proof -
  let ?r = "apply_text_watermark sample_env sample_photo ''PROOF'' DefaultFont ''bottom-left'' 20
          (255, 255, 255) (0, 0, 0) 2 fresh"
  have b: "textbbox sample_env ''PROOF'' DefaultFont = Inr (0, 3, 50, 15)"
    by (simp add: sample_env_textbbox)
  have o: "text_xy ''bottom-left'' 20 (width sample_photo, height sample_photo) (50 - 0, 15 - 3)
             = (20, 768)"
    by (simp add: text_xy_def sample_photo_def)
  have ok: "fst ?r = None" by (rule sample_text_succeeds)
  then have r: "?r = (None, fst (snd ?r), snd (snd ?r))" by (simp add: prod_eq_iff)
  have f: "trace fresh = []" by (simp add: fresh_def)
  note t = text_outline_then_fill[OF b o, of 2 "(255, 255, 255)" "(0, 0, 0)" fresh
      "fst (snd ?r)" "snd (snd ?r)"]
  have n: "int (length (outline_offsets 2)) = 24" using t by simp
  have tr: "trace (snd (snd ?r)) = trace fresh @ [TextBBox ''PROOF'' DefaultFont]
              @ map (\<lambda>(dx, dy). DrawText (20 + dx, 768 + dy) ''PROOF'' DefaultFont (0, 0, 0))
                  (outline_offsets 2)
              @ [DrawText (20, 768) ''PROOF'' DefaultFont (255, 255, 255)]"
    using t r by blast
  have "length (trace (snd (snd ?r))) = 26" using n by (simp add: tr f)
  moreover have "last (trace (snd (snd ?r)))
                   = DrawText (20, 768) ''PROOF'' DefaultFont (255, 255, 255)"
    by (simp add: tr)
  ultimately show ?thesis using b o ok n by simp
qed

text \<open>
  C3. The origin is \<open>(p, p)\<close> for top-left, \<open>(W - tw - p, p)\<close> for top-right,
  \<open>(p, H - th - p)\<close> for bottom-left and \<open>(W - tw - p, H - th - p)\<close> for bottom-right; any
  other position name gives the bottom-left origin. The layout is a total function, so
  no position name makes it fail. In \<open>apply_text_watermark\<close> the sizes \<open>tw\<close> and \<open>th\<close> are
  the width and height of the measured text box, and the fill is drawn at that origin.
\<close>

theorem text_layout_origin:
  "text_xy ''top-left'' p (W, H) (tw, th) = (p, p) \<and>
   text_xy ''top-right'' p (W, H) (tw, th) = (W - tw - p, p) \<and>
   text_xy ''bottom-left'' p (W, H) (tw, th) = (p, H - th - p) \<and>
   text_xy ''bottom-right'' p (W, H) (tw, th) = (W - tw - p, H - th - p) \<and>
   (pos \<notin> {''top-left'', ''top-right'', ''bottom-left'', ''bottom-right''} \<longrightarrow>
      text_xy pos p (W, H) (tw, th) = (p, H - th - p)) \<and>
   (textbbox e t fnt = Inr (x0, y0, x1, y1) \<and>
    apply_text_watermark e img t fnt pos p c oc w st = (None, img', st') \<longrightarrow>
      last (trace st') =
        DrawText (text_xy pos p (width img, height img) (x1 - x0, y1 - y0)) t fnt c)"
proof -
  have a: "text_xy ''top-left'' p (W, H) (tw, th) = (p, p)" by (simp add: text_xy_def)
  have b: "text_xy ''top-right'' p (W, H) (tw, th) = (W - tw - p, p)" by (simp add: text_xy_def)
  have c: "text_xy ''bottom-left'' p (W, H) (tw, th) = (p, H - th - p)" by (simp add: text_xy_def)
  have d: "text_xy ''bottom-right'' p (W, H) (tw, th) = (W - tw - p, H - th - p)"
    by (simp add: text_xy_def)
  have f: "pos \<notin> {''top-left'', ''top-right'', ''bottom-left'', ''bottom-right''} \<longrightarrow>
      text_xy pos p (W, H) (tw, th) = (p, H - th - p)" by (simp add: text_xy_def)
  have g: "textbbox e t fnt = Inr (x0, y0, x1, y1) \<and>
    apply_text_watermark e img t fnt pos p c oc w st = (None, img', st') \<longrightarrow>
      last (trace st') =
        DrawText (text_xy pos p (width img, height img) (x1 - x0, y1 - y0)) t fnt c"
  proof (intro impI, elim conjE)
    assume bb: "textbbox e t fnt = Inr (x0, y0, x1, y1)"
      and r: "apply_text_watermark e img t fnt pos p c oc w st = (None, img', st')"
    obtain x y where xy: "text_xy pos p (width img, height img) (x1 - x0, y1 - y0) = (x, y)"
      by (metis surj_pair)
    show "last (trace st') =
        DrawText (text_xy pos p (width img, height img) (x1 - x0, y1 - y0)) t fnt c"
      using apply_text_watermark_done[OF bb xy r] xy by simp
  qed
  show ?thesis using a b c d f g by blast
qed

theorem text_layout_origin_witness:
  "''center'' \<notin> {''top-left'', ''top-right'', ''bottom-left'', ''bottom-right''} \<and>
   text_xy ''center'' 20 (1000, 800) (50, 12) = (20, 768) \<and>
   textbbox sample_env ''PROOF'' DefaultFont = Inr (0, 3, 50, 15) \<and>
   fst (apply_text_watermark sample_env sample_photo ''PROOF'' DefaultFont ''center'' 20
          (255, 255, 255) (0, 0, 0) 2 fresh) = None \<and>
   last (trace (snd (snd (apply_text_watermark sample_env sample_photo ''PROOF'' DefaultFont
          ''center'' 20 (255, 255, 255) (0, 0, 0) 2 fresh))))
     = DrawText (20, 768) ''PROOF'' DefaultFont (255, 255, 255)"
proof -
  let ?r = "apply_text_watermark sample_env sample_photo ''PROOF'' DefaultFont ''center'' 20
          (255, 255, 255) (0, 0, 0) 2 fresh"
  have b: "textbbox sample_env ''PROOF'' DefaultFont = Inr (0, 3, 50, 15)"
    by (simp add: sample_env_textbbox)
  have ok: "fst ?r = None" by (rule sample_text_succeeds)
  then have r: "?r = (None, fst (snd ?r), snd (snd ?r))" by (simp add: prod_eq_iff)
  have d: "width sample_photo = 1000" "height sample_photo = 800"
    by (simp_all add: sample_photo_def)
  note t = text_layout_origin[of 20 1000 800 50 12 "''center''" sample_env "''PROOF''" DefaultFont
      0 3 50 15 sample_photo "(255, 255, 255)" "(0, 0, 0)" 2 fresh "fst (snd ?r)" "snd (snd ?r)"]
  have c: "''center'' \<notin> {''top-left'', ''top-right'', ''bottom-left'', ''bottom-right''}"
    by simp
  have xy: "text_xy ''center'' 20 (1000, 800) (50, 12) = (20, 768)" using t c by simp
  have "last (trace (snd (snd ?r)))
          = DrawText (text_xy ''center'' 20 (width sample_photo, height sample_photo)
                        (50 - 0, 15 - 3)) ''PROOF'' DefaultFont (255, 255, 255)"
    using t b r by blast
  then have "last (trace (snd (snd ?r)))
               = DrawText (20, 768) ''PROOF'' DefaultFont (255, 255, 255)"
    using xy by (simp add: d)
  then show ?thesis using c xy b ok by simp
qed

section \<open>Properties of the text stage of apply\_watermark\<close>





lemma draw_plan_bottom_left:
  assumes "ev \<in> set (map (draw_event t fnt) (draw_plan (x, y) c oc w))"
  shows "\<exists>dx dy col. ev = DrawText (x + dx, y + dy) t fnt col \<and> \<bar>dx\<bar> \<le> \<bar>w\<bar> \<and> \<bar>dy\<bar> \<le> \<bar>w\<bar>"
proof -
  from assms consider
      (outline) dx dy where "(dx, dy) \<in> set (outline_offsets w)" "ev = DrawText (x + dx, y + dy) t fnt oc"
    | (fill) "ev = DrawText (x, y) t fnt c"
    by (auto simp: map_draw_plan)
  then show ?thesis
  proof cases
    case outline
    then have "\<bar>dx\<bar> \<le> \<bar>w\<bar> \<and> \<bar>dy\<bar> \<le> \<bar>w\<bar>" by (auto simp: outline_offsets_set)
    then show ?thesis using outline by blast
  next
    case fill
    then have "ev = DrawText (x + 0, y + 0) t fnt c \<and> \<bar>0::int\<bar> \<le> \<bar>w\<bar> \<and> \<bar>0::int\<bar> \<le> \<bar>w\<bar>" by simp
    then show ?thesis by blast
  qed
qed


lemma text_stage_run:
  assumes "text_watermark p = Some t" "t \<noteq> []"
    and "load_font e ''Times New Roman'' (font_size p) st = (fnt, st1)"
  shows "text_stage e p img st =
           (case apply_text_watermark e img t fnt ''bottom-left'' (text_padding p) (text_color p)
                   (text_outline_color p) (text_outline_width p) st1 of
              (raised, img', st2) \<Rightarrow> (img', st2))"
  using assms by (simp add: text_stage_def split: prod.splits)

lemma sample_load_font:
  "fst (load_font sample_env ''Times New Roman'' 40 fresh) = FreeTypeFont liberation_serif 40"
  by (simp add: load_font_def lower_def lower_char_def times_paths_def sample_env_truetype
      sample_env_path_exists liberation_serif_def fresh_def Let_def emit_def char_of_eq_iff)




text \<open>
  C9. When a text is given, the text stage is \<open>apply_text_watermark\<close> at position
  \<open>bottom-left\<close> with the font that \<open>load_font\<close> returns for \<open>Times New Roman\<close>: after the
  font is loaded the trace continues with the measurement of the text in that font, and
  every draw that follows uses that font and lies within the outline width of the
  bottom-left origin \<open>(text_padding, height - text height - text_padding)\<close>. The record of
  arguments has no field for a position or a family, and no function of the module
  takes a \<open>WatermarkConfig\<close>.
\<close>

theorem text_stage_bottom_left_times:
  assumes "text_watermark p = Some t" "t \<noteq> []"
    and "load_font e ''Times New Roman'' (font_size p) st = (fnt, st1)"
    and "textbbox e t fnt = Inr (x0, y0, x1, y1)"
  shows "text_stage e p img st =
           (case apply_text_watermark e img t fnt ''bottom-left'' (text_padding p) (text_color p)
                   (text_outline_color p) (text_outline_width p) st1 of
              (raised, img', st2) \<Rightarrow> (img', st2)) \<and>
         (\<exists>evs. trace (snd (text_stage e p img st)) = trace st1 @ TextBBox t fnt # evs \<and>
            (\<forall>ev \<in> set evs. \<exists>dx dy col.
               ev = DrawText (text_padding p + dx, height img - (y1 - y0) - text_padding p + dy) t fnt col
               \<and> \<bar>dx\<bar> \<le> \<bar>text_outline_width p\<bar> \<and> \<bar>dy\<bar> \<le> \<bar>text_outline_width p\<bar>))"
proof -
  let ?x = "text_padding p" and ?y = "height img - (y1 - y0) - text_padding p"
  let ?plan = "draw_plan (?x, ?y) (text_color p) (text_outline_color p) (text_outline_width p)"
  obtain r img' st2 where at: "apply_text_watermark e img t fnt ''bottom-left'' (text_padding p)
      (text_color p) (text_outline_color p) (text_outline_width p) st1 = (r, img', st2)"
    by (metis surj_pair)
  have run: "text_stage e p img st =
           (case apply_text_watermark e img t fnt ''bottom-left'' (text_padding p) (text_color p)
                   (text_outline_color p) (text_outline_width p) st1 of
              (raised, img', st2) \<Rightarrow> (img', st2))"
    using assms(1-3) by (rule text_stage_run)
  then have s2: "snd (text_stage e p img st) = st2" using at by simp
  have xy: "text_xy ''bottom-left'' (text_padding p) (width img, height img) (x1 - x0, y1 - y0) = (?x, ?y)"
    by (simp add: text_xy_def)
  have "draw_all e t fnt ?plan img (emit (TextBBox t fnt) st1) = (r, img', st2)"
    using at assms(4) xy by (simp add: apply_text_watermark_unfold)
  from draw_all_trace[OF this] obtain n where
    n: "trace st2 = trace st1 @ TextBBox t fnt # map (draw_event t fnt) (take n ?plan)"
    by (auto simp: trace_emit)
  have "set (map (draw_event t fnt) (take n ?plan)) \<subseteq> set (map (draw_event t fnt) ?plan)"
    by (metis set_take_subset take_map)
  then have "\<forall>ev \<in> set (map (draw_event t fnt) (take n ?plan)). \<exists>dx dy col.
               ev = DrawText (?x + dx, ?y + dy) t fnt col
               \<and> \<bar>dx\<bar> \<le> \<bar>text_outline_width p\<bar> \<and> \<bar>dy\<bar> \<le> \<bar>text_outline_width p\<bar>"
    using draw_plan_bottom_left by blast
  then show ?thesis using run s2 n by blast
qed

theorem text_stage_bottom_left_times_witness:
  "text_watermark sample_params = Some ''PROOF'' \<and> ''PROOF'' \<noteq> [] \<and>
   textbbox sample_env ''PROOF'' (fst (load_font sample_env ''Times New Roman'' 40 fresh))
     = Inr (0, 3, 50, 15) \<and>
   (\<exists>evs. trace (snd (text_stage sample_env sample_params sample_photo fresh)) =
        trace (snd (load_font sample_env ''Times New Roman'' 40 fresh))
          @ TextBBox ''PROOF'' (FreeTypeFont liberation_serif 40) # evs)"
proof -
  let ?lf = "load_font sample_env ''Times New Roman'' 40 fresh"
  have t: "text_watermark sample_params = Some ''PROOF''"
    by (simp add: sample_params_def default_params_def)
  have sz: "font_size sample_params = 40" "text_padding sample_params = 20"
    "text_outline_width sample_params = 2" "height sample_photo = 800"
    by (simp_all add: sample_params_def default_params_def sample_photo_def)
  have lf: "load_font sample_env ''Times New Roman'' (font_size sample_params) fresh
              = (fst ?lf, snd ?lf)"
    by (simp add: sz)
  have bb: "textbbox sample_env ''PROOF'' (fst ?lf) = Inr (0, 3, 50, 15)"
    by (simp add: sample_env_textbbox)
  have ne: "''PROOF'' \<noteq> []" by simp
  have "\<exists>evs. trace (snd (text_stage sample_env sample_params sample_photo fresh)) =
        trace (snd ?lf) @ TextBBox ''PROOF'' (fst ?lf) # evs"
    using text_stage_bottom_left_times[OF t ne lf bb, of sample_photo, THEN conjunct2]
    by blast
  then show ?thesis using t bb by (simp add: sample_load_font)
qed

section \<open>Properties of the image watermark\<close>

subsection \<open>Rounding to the nearest double\<close>

lemma rne_ge: "0 \<le> m \<Longrightarrow> g * 2 ^ d \<le> m \<Longrightarrow> g \<le> rne m d"
proof -
  assume m: "0 \<le> m" and g: "g * 2 ^ d \<le> m"
  have "(g * 2 ^ d) div 2 ^ d \<le> m div 2 ^ d"
    using g by (intro zdiv_mono1) simp_all
  then have "g \<le> m div 2 ^ d" by simp
  then show ?thesis by (simp add: rne_def Let_def)
qed

lemma rne_le: "0 \<le> m \<Longrightarrow> m \<le> g * 2 ^ d \<Longrightarrow> rne m d \<le> g"
proof -
  assume m: "0 \<le> m" and g: "m \<le> g * 2 ^ d"
  let ?p = "(2::int) ^ d"
  let ?q = "m div ?p" and ?r = "m mod ?p"
  have p: "0 < ?p" by simp
  have dm: "m = ?q * ?p + ?r" by (rule div_mult_mod_eq[symmetric])
  have r: "0 \<le> ?r" "?r < ?p" using p by simp_all
  show ?thesis
  proof (cases "?r = 0")
    case True
    then have "?q * ?p \<le> g * ?p" using dm g by simp
    then have "?q \<le> g" using p by (rule mult_right_le_imp_le)
    moreover have "rne m d = ?q" using True by (simp add: rne_def Let_def)
    ultimately show ?thesis by simp
  next
    case False
    then have "?q * ?p < g * ?p" using dm g r by linarith
    then have "?q < g" by (rule mult_right_less_imp_less) simp
    moreover have "rne m d \<le> ?q + 1" by (simp add: rne_def Let_def)
    ultimately show ?thesis by linarith
  qed
qed

lemma rne_near: "0 \<le> m \<Longrightarrow> 2 * (rne m d * 2 ^ d - m) \<le> 2 ^ d"
proof -
  assume m: "0 \<le> m"
  define p :: int where "p = 2 ^ d"
  define q where "q = m div p"
  define r where "r = m mod p"
  have p: "0 < p" by (simp add: p_def)
  have dm: "m = q * p + r" unfolding q_def r_def by (rule div_mult_mod_eq[symmetric])
  have r: "0 \<le> r" "r < p" using p by (simp_all add: r_def)
  have up: "2 * ((q + 1) * p - m) \<le> p" if "p \<le> 2 * r"
    using that dm by (simp add: algebra_simps)
  have down: "2 * (q * p - m) \<le> p"
    using dm r p by (simp add: algebra_simps)
  have "rne m d = q + 1 \<and> p \<le> 2 * r \<or> rne m d = q"
    by (auto simp: rne_def Let_def p_def q_def r_def)
  then show ?thesis using up down unfolding p_def by auto
qed

lemma div_between:
  fixes r n c :: int
  assumes "0 < c" "n * c \<le> r" "r < (n + 1) * c"
  shows "r div c = n"
proof -
  have "(n * c) div c \<le> r div c" using assms by (intro zdiv_mono1) simp_all
  then have lo: "n \<le> r div c" using assms(1) by simp
  have dm: "r = (r div c) * c + r mod c" by (rule div_mult_mod_eq[symmetric])
  have "0 \<le> r mod c" using assms(1) by simp
  then have "(r div c) * c \<le> r" using dm by linarith
  then have "(r div c) * c < (n + 1) * c" using assms(3) by linarith
  then have "r div c < n + 1" by (rule mult_right_less_imp_less) (use assms(1) in simp)
  then show ?thesis using lo by linarith
qed

lemma div_lower:
  fixes x num b :: int
  assumes "0 < b" "x * b \<le> num"
  shows "x \<le> num div b"
proof -
  have "(x * b) div b \<le> num div b" using assms by (intro zdiv_mono1) simp_all
  then show ?thesis using assms(1) by simp
qed

lemma div_mult_bounds:
  fixes num b :: int
  assumes "0 < b"
  shows "(num div b) * b \<le> num" "num < (num div b + 1) * b"
proof -
  have dm: "num = (num div b) * b + num mod b" by (rule div_mult_mod_eq[symmetric])
  have m: "0 \<le> num mod b" "num mod b < b" using assms by simp_all
  show "(num div b) * b \<le> num" using dm m by linarith
  have "(num div b + 1) * b = (num div b) * b + b" by (simp add: algebra_simps)
  then show "num < (num div b + 1) * b" using dm m by linarith
qed

lemma bitlen_nat:
  assumes "0 < x"
  obtains N :: nat where "bitlen x = int N" "1 \<le> N" "x < 2 ^ N" "2 ^ N \<le> 2 * x"
proof -
  define N where "N = nat (bitlen x)"
  have nn: "bitlen x = int N" using bitlen_nonneg[of x] by (simp add: N_def)
  have b: "2 ^ nat (bitlen x - 1) \<le> x" "x < 2 ^ nat (bitlen x)"
    using bitlen_bounds[OF assms] by auto
  have ge: "1 \<le> N"
  proof (rule ccontr)
    assume "\<not> 1 \<le> N"
    then have "bitlen x = 0" using nn by simp
    then show False using assms by (simp add: bitlen_eq_zero_iff)
  qed
  have "nat (bitlen x - 1) = N - 1" by (simp add: nn)
  then have "2 ^ (N - 1) \<le> x" using b(1) by simp
  moreover have "(2::int) ^ N = 2 * 2 ^ (N - 1)" using ge by (cases N) simp_all
  ultimately have up: "2 ^ N \<le> 2 * x" by linarith
  have lt: "x < 2 ^ N" using b(2) unfolding N_def .
  show ?thesis by (rule that[OF nn ge lt up])
qed

lemma round_double_exact:
  assumes "max (bitlen \<bar>m\<bar> - 53) (- 1074 - k) \<le> 0" "m = 0 \<or> bitlen \<bar>m\<bar> + k \<le> 1024"
  shows "round_double m k = Finite m k"
  using assms by (auto simp: round_double_def Let_def)

lemma round_double_shift:
  assumes "0 \<le> m" "max (bitlen m - 53) (- 1074 - k) = int d" "0 < d"
    and "bitlen (rne m d) + (k + int d) \<le> 1024"
  shows "round_double m k = Finite (rne m d) (k + int d)"
proof -
  have "max (bitlen \<bar>m\<bar> - 53) (- 1074 - k) = int d" using assms by simp
  moreover have "sgn m * rne \<bar>m\<bar> d = rne m d"
  proof (cases "m = 0")
    case True
    then show ?thesis by (simp add: rne_def)
  next
    case False
    then show ?thesis using assms(1) by simp
  qed
  moreover have "\<bar>rne m d\<bar> = rne m d"
    using rne_ge[of m 0 d] assms(1) by simp
  ultimately show ?thesis
    using assms(3,4) by (simp add: round_double_def Let_def)
qed

lemma round_double_finite:
  assumes "0 \<le> m" "bitlen m - 53 = int d" "0 < d" "- 1074 - k \<le> int d"
    and "bitlen (rne m d) + (k + int d) \<le> 1024"
  shows "round_double m k = Finite (rne m d) (k + int d)"
  using assms by (intro round_double_shift) simp_all

lemma true_divide_zero:
  assumes "0 < b" "b < 2 ^ 52"
  shows "\<exists>m k. true_divide 0 b = Inr (Finite m k) \<and> trunc_pow2 m k = 0"
proof -
  have nb: "bitlen b \<le> 52" using assms by (simp add: bitlen_le_iff_power)
  have nb0: "0 \<le> bitlen b" by (rule bitlen_nonneg)
  define s where "s = nat (max 0 (55 + bitlen \<bar>b\<bar> - bitlen \<bar>0\<bar>))"
  have s: "int s = 55 + bitlen b" using assms nb0 by (simp add: s_def)
  have "round_double 0 (- int s - 1) = Finite 0 (- int s - 1)"
    using s nb nb0 by (simp add: round_double_def Let_def)
  then have "true_divide 0 b = Inr (Finite 0 (- int s - 1))"
    using assms(1) by (simp add: true_divide_def Let_def s_def)
  moreover have "trunc_pow2 0 (- int s - 1) = 0" by (simp add: trunc_pow2_def)
  ultimately show ?thesis by blast
qed

lemma true_divide_pos:
  assumes "0 < a" "0 < b" "nat (max 0 (55 + bitlen b - bitlen a)) = s"
    and "round_double (2 * (a * 2 ^ s div b) + (if a * 2 ^ s mod b = 0 then 0 else 1))
           (- int s - 1) = Finite m k"
  shows "true_divide a b = Inr (Finite m k)"
proof -
  have "\<bar>a\<bar> = a" "\<bar>b\<bar> = b" "sgn a = 1" "sgn b = 1" "b \<noteq> 0" using assms(1,2) by simp_all
  then show ?thesis
    unfolding true_divide_def Let_def using assms(3,4) by simp
qed

lemma true_divide_floor_pos:
  assumes a: "0 < a" "a < 2 ^ 52" and b: "0 < b" "b < 2 ^ 52"
  shows "\<exists>m k. true_divide a b = Inr (Finite m k) \<and> trunc_pow2 m k = a div b"
proof -
  obtain NA :: nat where NA: "bitlen a = int NA" "1 \<le> NA" "a < 2 ^ NA" "2 ^ NA \<le> 2 * a"
    using bitlen_nat[OF a(1)] by blast
  obtain NB :: nat where NB: "bitlen b = int NB" "1 \<le> NB" "b < 2 ^ NB" "2 ^ NB \<le> 2 * b"
    using bitlen_nat[OF b(1)] by blast
  have NA52: "NA \<le> 52"
    using a NA(1) bitlen_le_iff_power[of a 52] by simp
  have NB52: "NB \<le> 52"
    using b NB(1) bitlen_le_iff_power[of b 52] by simp
  define s where "s = 55 + NB - NA"
  have s_eq: "nat (max 0 (55 + bitlen b - bitlen a)) = s"
    using NA NB NA52 by (simp add: s_def)
  have sNA: "s + NA = 55 + NB" using NA52 by (simp add: s_def)
  have s4: "4 \<le> s" "s \<le> 106" using NA52 NB52 NA(2) NB(2) by (simp_all add: s_def)
  define P :: int where "P = 2 ^ s"
  have P0: "0 < P" by (simp add: P_def)
  have AP: "2 ^ NA * P = 2 ^ 55 * (2 ^ NB :: int)"
  proof -
    have "(2::int) ^ NA * 2 ^ s = 2 ^ (s + NA)" by (simp only: power_add mult.commute)
    also have "\<dots> = 2 ^ (55 + NB)" by (simp only: sNA)
    also have "\<dots> = 2 ^ 55 * 2 ^ NB" by (simp only: power_add)
    finally show ?thesis unfolding P_def .
  qed
  define num where "num = a * P"
  define q where "q = num div b"
  define sticky :: int where "sticky = (if num mod b = 0 then 0 else 1)"
  define M where "M = 2 * q + sticky"
  have st: "0 \<le> sticky" "sticky \<le> 1" by (simp_all add: sticky_def)
  have qb: "q * b \<le> num" "num < (q + 1) * b"
    unfolding q_def using div_mult_bounds[OF b(1)] by auto
  \<comment> \<open>The scaled quotient has 55 or 56 bits.\<close>
  have "a * P < 2 ^ NA * P" using NA(3) P0 by (rule mult_strict_right_mono)
  also have "\<dots> = 2 ^ 55 * 2 ^ NB" by (rule AP)
  also have "\<dots> \<le> 2 ^ 55 * (2 * b)" using NB(4) by (intro mult_left_mono) simp_all
  also have "\<dots> = 2 ^ 56 * b" by simp
  finally have num_hi: "num < 2 ^ 56 * b" unfolding num_def .
  have "2 * (2 ^ 54 * b) = 2 ^ 55 * b" by simp
  also have "\<dots> < 2 ^ 55 * 2 ^ NB" using NB(3) by (intro mult_strict_left_mono) simp_all
  also have "\<dots> = 2 ^ NA * P" by (rule AP[symmetric])
  also have "\<dots> \<le> (2 * a) * P" using NA(4) P0 by (intro mult_right_mono) simp_all
  also have "\<dots> = 2 * num" by (simp add: num_def)
  finally have num_lo: "2 ^ 54 * b < num" by simp
  have "q * b < 2 ^ 56 * b" using qb(1) num_hi by linarith
  then have q_hi: "q < 2 ^ 56" by (rule mult_right_less_imp_less) (use b(1) in simp)
  have "2 ^ 54 * b < (q + 1) * b" using qb(2) num_lo by linarith
  then have "2 ^ 54 < q + 1" by (rule mult_right_less_imp_less) (use b(1) in simp)
  then have q_lo: "2 ^ 54 \<le> q" by simp
  have M_bounds: "2 ^ 55 \<le> M" "M < 2 ^ 57" using q_lo q_hi st by (simp_all add: M_def)
  have M0: "0 \<le> M" using M_bounds(1) by simp
  have bl_hi: "bitlen M \<le> 57" using M_bounds(2) by (simp add: bitlen_le_iff_power)
  have bl_lo: "56 \<le> bitlen M" using M_bounds(1) by (simp add: bitlen_ge_iff_power)
  define d where "d = nat (bitlen M - 53)"
  have d: "bitlen M - 53 = int d" "3 \<le> d" "d \<le> 4" using bl_hi bl_lo by (simp_all add: d_def)
  define t where "t = s + 1 - d"
  have t: "t + d = s + 1" using s4 d by (simp add: t_def)
  have tP: "2 ^ t * 2 ^ d = 2 * P" unfolding P_def by (simp add: t flip: power_add)
  have d16: "(2::int) ^ d \<le> 16"
  proof -
    have "(2::int) ^ d \<le> 2 ^ 4" using d(3) by (intro power_increasing) simp_all
    then show ?thesis by simp
  qed
  \<comment> \<open>The rounded mantissa lies between the two neighbouring integers.\<close>
  define n where "n = a div b"
  have nb: "n * b \<le> a" "a < (n + 1) * b"
    unfolding n_def using div_mult_bounds[OF b(1)] by auto
  have n0: "0 \<le> n" using a(1) b(1) by (simp add: n_def pos_imp_zdiv_nonneg_iff)
  have "(n * P) * b = (n * b) * P" by (simp add: algebra_simps)
  also have "\<dots> \<le> a * P" using nb(1) P0 by (intro mult_right_mono) simp_all
  finally have "n * P \<le> q" unfolding q_def num_def using b(1) by (intro div_lower)
  then have "(n * 2 ^ t) * 2 ^ d \<le> M"
    using st tP by (simp add: M_def algebra_simps)
  then have R_lo: "n * 2 ^ t \<le> rne M d" using M0 by (intro rne_ge)
  have aP: "a * P \<le> ((n + 1) * b - 1) * P"
    using nb(2) P0 by (intro mult_right_mono) simp_all
  have key: "q * b + P \<le> ((n + 1) * P) * b"
    using qb(1) aP by (simp add: num_def algebra_simps)
  have "q * b < ((n + 1) * P) * b" using key P0 by linarith
  then have "q < (n + 1) * P" by (rule mult_right_less_imp_less) (use b(1) in simp)
  then have "M \<le> ((n + 1) * 2 ^ t) * 2 ^ d"
    using st tP by (simp add: M_def algebra_simps)
  then have R_le: "rne M d \<le> (n + 1) * 2 ^ t" using M0 by (intro rne_le)
  have R_ne: "rne M d \<noteq> (n + 1) * 2 ^ t"
  proof
    assume e: "rne M d = (n + 1) * 2 ^ t"
    define X where "X = (n + 1) * P"
    have near: "2 * (rne M d * 2 ^ d - M) \<le> 2 ^ d" using M0 by (rule rne_near)
    have "rne M d * 2 ^ d = 2 * X"
      using tP by (simp add: e X_def algebra_simps)
    then have "2 * (2 * X - M) \<le> 2 ^ d" using near by simp
    then have "2 * X - M \<le> 8" using d16 by arith
    then have "X - q \<le> 4" using st unfolding M_def by arith
    then have gap: "(n + 1) * P - q \<le> 4" by (simp add: X_def)
    have "P \<le> ((n + 1) * P - q) * b" using key by (simp add: algebra_simps)
    also have "\<dots> \<le> 4 * b" using gap b(1) by (intro mult_right_mono) simp_all
    finally have "P \<le> 4 * b" .
    have "2 ^ NA * P \<le> 2 ^ 52 * P"
      using NA52 P0 by (intro mult_right_mono power_increasing) simp_all
    then have "2 ^ 55 * (2 ^ NB :: int) \<le> 2 ^ 52 * P" using AP by simp
    then have "8 * b < P" using NB(3) by simp
    then show False using \<open>P \<le> 4 * b\<close> b(1) by linarith
  qed
  have R_lt: "rne M d < (n + 1) * 2 ^ t" using R_le R_ne by linarith
  have R0: "0 \<le> rne M d" using R_lo n0 by (meson mult_nonneg_nonneg order_trans zero_le_numeral zero_le_power)
  \<comment> \<open>No overflow, and the result.\<close>
  have "n + 1 \<le> 2 ^ 52"
  proof -
    have "n * 1 \<le> n * b" using n0 b(1) by (intro mult_left_mono) simp_all
    then show ?thesis using nb(1) a(2) by simp
  qed
  then have "(n + 1) * 2 ^ t \<le> 2 ^ 52 * 2 ^ t" by (intro mult_right_mono) simp_all
  then have "rne M d < 2 ^ 52 * 2 ^ t" using R_lt by (rule less_le_trans[rotated])
  then have "rne M d < 2 ^ (52 + t)" by (simp only: power_add)
  then have blR: "bitlen (rne M d) \<le> 52 + int t"
    using bitlen_le_iff_power[of "rne M d" "52 + int t"] by (simp add: nat_add_distrib)
  have k': "- int s - 1 + int d = - int t" using t by linarith
  have rd: "round_double M (- int s - 1) = Finite (rne M d) (- int t)"
    using round_double_finite[OF M0 d(1), of "- int s - 1"] d(2) s4 blR k' by simp
  have "round_double (2 * (a * 2 ^ s div b) + (if a * 2 ^ s mod b = 0 then 0 else 1))
           (- int s - 1) = Finite (rne M d) (- int t)"
    using rd by (simp add: M_def q_def num_def sticky_def P_def)
  then have td: "true_divide a b = Inr (Finite (rne M d) (- int t))"
    by (rule true_divide_pos[OF a(1) b(1) s_eq])
  have t1: "1 \<le> t" using s4 d by (simp add: t_def)
  have "trunc_pow2 (rne M d) (- int t) = rne M d div 2 ^ t"
    using t1 R0 by (simp add: trunc_pow2_def)
  also have "\<dots> = n" using R_lo R_lt by (intro div_between) simp_all
  finally show ?thesis using td by (auto simp: n_def)
qed

lemma true_divide_floor:
  assumes "0 \<le> a" "a < 2 ^ 52" "0 < b" "b < 2 ^ 52"
  shows "\<exists>m k. true_divide a b = Inr (Finite m k) \<and> trunc_pow2 m k = a div b"
proof (cases "a = 0")
  case True
  then show ?thesis using true_divide_zero[OF assms(3,4)] by simp
next
  case False
  then show ?thesis using true_divide_floor_pos[of a b] assms by simp
qed

lemma two_powr_int:
  "2 powr real_of_int k = (if 0 \<le> k then 2 ^ nat k else 1 / 2 ^ nat (- k))"
proof (cases "0 \<le> k")
  case True
  then have "real_of_int k = real (nat k)" by simp
  then show ?thesis using True by (simp only: powr_realpow) simp
next
  case False
  then have "real_of_int k = - real (nat (- k))" by simp
  then have "2 powr real_of_int k = 2 powr (- real (nat (- k)))" by (simp only:)
  also have "\<dots> = 1 / 2 powr real (nat (- k))" by (rule powr_minus_divide)
  also have "\<dots> = 1 / 2 ^ nat (- k)" by (simp only: powr_realpow zero_less_numeral)
  finally show ?thesis using False by (simp only: if_False)
qed

lemma trunc_pow2_floor: "0 \<le> m \<Longrightarrow> trunc_pow2 m k = \<lfloor>value_of m k\<rfloor>"
proof (cases "0 \<le> k")
  case True
  then have "value_of m k = real_of_int (m * 2 ^ nat k)"
    by (simp add: value_of_def two_powr_int)
  then show ?thesis using True by (simp add: trunc_pow2_def del: of_int_mult)
next
  case False
  assume m: "0 \<le> m"
  have "value_of m k = real_of_int m / real_of_int (2 ^ nat (- k))"
    using False by (simp add: value_of_def two_powr_int)
  then have "\<lfloor>value_of m k\<rfloor> = m div 2 ^ nat (- k)"
    by (simp only: floor_divide_of_int_eq)
  then show ?thesis using False m by (simp add: trunc_pow2_def)
qed

lemma trunc_pow2_nonpos: "0 \<le> m \<Longrightarrow> trunc_pow2 m (- int t) = m div 2 ^ t"
proof (cases "t = 0")
  case True
  then show ?thesis by (simp add: trunc_pow2_def)
next
  case False
  assume "0 \<le> m"
  moreover have "nat (- (- int t)) = t" by simp
  moreover have "\<not> 0 \<le> - int t" using False by simp
  ultimately show ?thesis unfolding trunc_pow2_def by (simp only: if_True if_False)
qed

lemma bitlen_from_value:
  assumes "0 < m" "value_of m k < 2 ^ 53"
  shows "bitlen m + k \<le> 53"
proof -
  define j where "j = nat (bitlen m - 1)"
  have "1 \<le> bitlen m" using assms(1) bitlen_eq_zero_iff[of m] bitlen_nonneg[of m] by linarith
  then have j: "bitlen m - 1 = int j" by (simp add: j_def)
  have "2 ^ j \<le> m" using bitlen_bounds[OF assms(1)] by (simp add: j_def)
  then have "real_of_int (2 ^ j) \<le> real_of_int m" by (simp only: of_int_le_iff)
  moreover have "2 powr real_of_int (int j) = real_of_int (2 ^ j)"
    by (simp add: powr_realpow)
  ultimately have "2 powr real_of_int (bitlen m - 1) \<le> real_of_int m"
    by (simp only: j)
  then have "2 powr real_of_int (bitlen m - 1) * 2 powr real_of_int k \<le> value_of m k"
    unfolding value_of_def by (intro mult_right_mono) simp_all
  then have "2 powr (real_of_int (bitlen m - 1 + k)) < 2 powr 53"
    using assms(2) by (simp add: powr_add)
  then have "real_of_int (bitlen m - 1 + k) < 53" by (simp only: powr_less_cancel_iff)
  then show ?thesis by linarith
qed

lemma double_of_int_exact: "\<bar>i\<bar> < 2 ^ 53 \<Longrightarrow> double_of_int i = Inr (Finite i 0)"
proof -
  assume "\<bar>i\<bar> < 2 ^ 53"
  then have "bitlen \<bar>i\<bar> \<le> 53" by (simp add: bitlen_le_iff_power)
  then have "round_double i 0 = Finite i 0" by (intro round_double_exact) simp_all
  then show ?thesis by (simp add: double_of_int_def)
qed

lemma round_double_bracket:
  assumes m: "0 \<le> m" and v: "value_of m k < 2 ^ 53"
  shows "\<exists>r j. round_double m k = Finite r j \<and> 0 \<le> r \<and>
           (trunc_pow2 r j = \<lfloor>value_of m k\<rfloor> \<or> trunc_pow2 r j = \<lfloor>value_of m k\<rfloor> + 1)"
proof (cases "max (bitlen \<bar>m\<bar> - 53) (- 1074 - k) \<le> 0")
  case True
  have "m = 0 \<or> bitlen \<bar>m\<bar> + k \<le> 1024"
    using bitlen_from_value[of m k] m v by (cases "m = 0") auto
  then have "round_double m k = Finite m k" using True by (intro round_double_exact)
  then show ?thesis using m trunc_pow2_floor[OF m, of k] by auto
next
  case False
  define d where "d = nat (max (bitlen m - 53) (- 1074 - k))"
  have am: "\<bar>m\<bar> = m" using m by simp
  have pos: "0 < max (bitlen m - 53) (- 1074 - k)" using False unfolding am by linarith
  have d: "max (bitlen m - 53) (- 1074 - k) = int d" "0 < d"
    using pos by (simp_all add: d_def)
  have kd: "k + int d \<le> 0"
  proof (cases "m = 0")
    case True
    then show ?thesis using d by simp
  next
    case False
    then have "bitlen m + k \<le> 53" using bitlen_from_value[of m k] m v by simp
    then show ?thesis using d(1) by linarith
  qed
  define t where "t = nat (- (k + int d))"
  have t: "k + int d = - int t" using kd by (simp add: t_def)
  define e where "e = t + d"
  have k: "k = - int e" "k < 0" using t d(2) by (simp_all add: e_def)
  define n where "n = m div 2 ^ e"
  have "nat (- k) = e" "\<not> 0 \<le> k" using k by simp_all
  then have "2 powr real_of_int k = 1 / 2 ^ e"
    using two_powr_int[of k] by (simp only: if_False)
  then have "value_of m k = real_of_int m / real_of_int (2 ^ e)"
    by (simp add: value_of_def)
  then have fl: "\<lfloor>value_of m k\<rfloor> = n"
    unfolding n_def by (simp only: floor_divide_of_int_eq)
  have n0: "0 \<le> n" using m by (simp add: n_def pos_imp_zdiv_nonneg_iff)
  have nb: "n * 2 ^ e \<le> m" "m < (n + 1) * 2 ^ e"
    unfolding n_def using div_mult_bounds[of "2 ^ e" m] by simp_all
  have pe: "(2::int) ^ e = 2 ^ t * 2 ^ d" by (simp add: e_def power_add)
  have "(n * 2 ^ t) * 2 ^ d \<le> m" using nb(1) by (simp add: pe algebra_simps)
  then have lo: "n * 2 ^ t \<le> rne m d" using m by (intro rne_ge)
  have "m \<le> ((n + 1) * 2 ^ t) * 2 ^ d" using nb(2) by (simp add: pe algebra_simps)
  then have hi: "rne m d \<le> (n + 1) * 2 ^ t" using m by (intro rne_le)
  have r0: "0 \<le> rne m d" using rne_ge[of m 0 d] m by simp
  have "real_of_int n \<le> value_of m k" using fl by linarith
  then have "real_of_int n < 2 ^ 53" using v by linarith
  then have "n < 2 ^ 53" by simp
  then have "(n + 1) * 2 ^ t \<le> 2 ^ 53 * 2 ^ t" by (intro mult_right_mono) simp_all
  then have "rne m d \<le> 2 ^ 53 * 2 ^ t" using hi by linarith
  also have "\<dots> < 2 ^ 54 * 2 ^ t" by simp
  finally have "rne m d < 2 ^ (54 + t)" by (simp only: power_add)
  then have "bitlen (rne m d) \<le> 54 + int t"
    using bitlen_le_iff_power[of "rne m d" "54 + int t"] by (simp add: nat_add_distrib)
  then have "bitlen (rne m d) + (k + int d) \<le> 1024" using t by linarith
  then have rd: "round_double m k = Finite (rne m d) (- int t)"
    using round_double_shift[OF m d] t by simp
  have tr: "trunc_pow2 (rne m d) (- int t) = rne m d div 2 ^ t"
    using r0 by (rule trunc_pow2_nonpos)
  have "rne m d div 2 ^ t = n \<or> rne m d div 2 ^ t = n + 1"
  proof (cases "rne m d = (n + 1) * 2 ^ t")
    case True
    then show ?thesis by simp
  next
    case False
    then have "rne m d < (n + 1) * 2 ^ t" using hi by linarith
    then have "rne m d div 2 ^ t = n" using lo by (intro div_between) simp_all
    then show ?thesis by simp
  qed
  then show ?thesis using rd tr fl r0 by auto
qed

subsection \<open>The size of the resized watermark\<close>

lemma float_literals:
  "true_divide 2 10 = Inr float_0_2" "true_divide 15 100 = Inr float_0_15"
  "true_divide 7 10 = Inr float_0_7" "true_divide 29 100 = Inr float_0_29"
  by (code_simp, code_simp, code_simp, code_simp)

text \<open>
  Widths at which the rounding of the double product decides: \<open>10 * 0.7\<close> is the double
  7.0 although the double 0.7 lies below 7/10, \<open>100 * 0.29\<close> is a double below 29, and
  \<open>1000 * 0.15\<close> is the double 150.0.
\<close>

lemma watermark_size_double_products:
  "watermark_size 10 float_0_7 (400, 300) = Inr (7, 5)"
  "watermark_size 100 float_0_29 (400, 300) = Inr (28, 21)"
  "watermark_size 1000 float_0_15 (400, 300) = Inr (150, 112)"
  by (code_simp, code_simp, code_simp)

lemma watermark_size_5_075: "watermark_size 5 (Finite 3 (- 2)) (4, 3) = Inr (3, 2)"
  by code_simp

lemma value_of_075: "value_of 3 (- 2) = 3 / 4"
  using two_powr_int[of "- 2"] by (simp add: value_of_def)

text \<open>
  C2, as the claim states it, fails: both dimensions go through \<open>int\<close>, which truncates.
  For a base 5 pixels wide, scale 0.75 and a 4 by 3 watermark the code computes 3 by 2,
  where rounding would give 4 by 3. The scale and the product 3.75 are doubles, so no
  rounding of the product is involved.
\<close>

theorem watermark_size_not_rounded:
  "watermark_size 5 (Finite 3 (- 2)) (4, 3) \<noteq>
     Inr (round (5 * value_of 3 (- 2)),
          round (real_of_int (round (5 * value_of 3 (- 2))) * 3 / 4))"
  by (simp add: watermark_size_5_075 value_of_075 round_def)

text \<open>
  C2, as the code has it. Let the base width be below \<open>2^53\<close>, the scale a finite double
  that is not negative, the exact product of the two below \<open>2^53\<close>, the watermark's width
  positive and below \<open>2^52\<close>, its height not negative, and the exact product, taken one
  pixel up, times that height below \<open>2^52\<close>. Then the size is computed without exception.
  The new width is the double-precision product truncated, not rounded to nearest: it
  is the floor of the exact product, or one more when the double product rounds up to
  the next integer. The new height is the integer quotient of new width times height by
  the width of the watermark, so it is less than one pixel below the height that keeps
  the proportions exactly.
\<close>

theorem watermark_size_truncates:
  assumes "0 \<le> bw" "bw < 2 ^ 53" "0 \<le> m"
    and "real_of_int bw * value_of m k < 2 ^ 53"
    and "0 < ow" "ow < 2 ^ 52" "0 \<le> oh"
    and "(\<lfloor>real_of_int bw * value_of m k\<rfloor> + 1) * oh < 2 ^ 52"
  shows "\<exists>M K tw th.
           dmul (Finite bw 0) (Finite m k) = Finite M K \<and>
           watermark_size bw (Finite m k) (ow, oh) = Inr (tw, th) \<and>
           tw = \<lfloor>value_of M K\<rfloor> \<and>
           (tw = \<lfloor>real_of_int bw * value_of m k\<rfloor> \<or>
            tw = \<lfloor>real_of_int bw * value_of m k\<rfloor> + 1) \<and>
           th = (tw * oh) div ow \<and> th * ow \<le> tw * oh \<and> tw * oh < (th + 1) * ow"
proof -
  let ?x = "real_of_int bw * value_of m k"
  have prod: "value_of (bw * m) (0 + k) = ?x" by (simp add: value_of_def)
  have bm: "0 \<le> bw * m" using assms(1,3) by simp
  obtain M K where rd: "round_double (bw * m) (0 + k) = Finite M K" and M0: "0 \<le> M"
    and br: "trunc_pow2 M K = \<lfloor>?x\<rfloor> \<or> trunc_pow2 M K = \<lfloor>?x\<rfloor> + 1"
    using round_double_bracket[OF bm, of "0 + k"] assms(4) unfolding prod by blast
  define tw where "tw = trunc_pow2 M K"
  have dm: "dmul (Finite bw 0) (Finite m k) = Finite M K" using rd by simp
  have di: "double_of_int bw = Inr (Finite bw 0)"
    using assms(1,2) by (intro double_of_int_exact) simp
  have x0: "0 \<le> ?x" using assms(1,3) by (simp add: value_of_def)
  then have fl0: "0 \<le> \<lfloor>?x\<rfloor>" by simp
  have tw0: "0 \<le> tw" using br fl0 unfolding tw_def by linarith
  have "tw \<le> \<lfloor>?x\<rfloor> + 1" using br unfolding tw_def by linarith
  then have "tw * oh \<le> (\<lfloor>?x\<rfloor> + 1) * oh" using assms(7) by (rule mult_right_mono)
  then have a52: "tw * oh < 2 ^ 52" using assms(8) by linarith
  have a0: "0 \<le> tw * oh" using tw0 assms(7) by simp
  obtain R J where td: "true_divide (tw * oh) ow = Inr (Finite R J)"
    and th: "trunc_pow2 R J = (tw * oh) div ow"
    using true_divide_floor[OF a0 a52 assms(5,6)] by blast
  define th where "th = (tw * oh) div ow"
  have ws: "watermark_size bw (Finite m k) (ow, oh) = Inr (tw, th)"
    using di dm td \<open>trunc_pow2 R J = (tw * oh) div ow\<close>
    by (simp add: watermark_size_def tw_def th_def)
  have flo: "tw = \<lfloor>value_of M K\<rfloor>" unfolding tw_def using M0 by (rule trunc_pow2_floor)
  have ratio: "th * ow \<le> tw * oh" "tw * oh < (th + 1) * ow"
    unfolding th_def using div_mult_bounds[OF assms(5), of "tw * oh"] by simp_all
  have br': "tw = \<lfloor>?x\<rfloor> \<or> tw = \<lfloor>?x\<rfloor> + 1" using br by (simp add: tw_def)
  show ?thesis
    by (intro exI[of _ M] exI[of _ K] exI[of _ tw] exI[of _ th] conjI)
       (rule dm ws flo br' ratio refl[of th, unfolded th_def[symmetric]] | simp add: th_def)+
qed

theorem watermark_size_truncates_witness:
  "(0::int) \<le> 5 \<and> real_of_int 5 * value_of 3 (- 2) = 15 / 4 \<and>
   watermark_size 5 (Finite 3 (- 2)) (4, 3) = Inr (3, 2) \<and>
   (3::int) = \<lfloor>real_of_int 5 * value_of 3 (- 2)\<rfloor> \<and> (2::int) = (3 * 3) div 4"
proof -
  have v: "real_of_int 5 * value_of 3 (- 2) = 15 / 4" by (simp add: value_of_075)
  have fl: "\<lfloor>real_of_int 5 * value_of 3 (- 2)\<rfloor> = 3" unfolding v by simp
  have h4: "real_of_int 5 * value_of 3 (- 2) < 2 ^ 53" unfolding v by simp
  have h8: "(\<lfloor>real_of_int 5 * value_of 3 (- 2)\<rfloor> + 1) * 3 < 2 ^ 52" unfolding fl by simp
  from watermark_size_truncates[of 5 3 "- 2" 4 3, OF _ _ _ h4 _ _ _ h8]
  obtain tw th where "watermark_size 5 (Finite 3 (- 2)) (4, 3) = Inr (tw, th)"
    "th = (tw * 3) div 4" by auto
  then show ?thesis using v fl watermark_size_5_075 by simp
qed

lemma watermark_size_scenario: "watermark_size 1000 float_0_2 (400, 300) = Inr (200, 150)"
  by code_simp

lemma watermark_size_scenario_short:
  "watermark_size 1000 (Finite 3602879701896397 (- 54)) (400, 300) = Inr (200, 150)"
  by code_simp

lemma add_image_watermark_unfold:
  assumes "image_open e wpath = Inr wm"
    and "watermark_size (width base) scale (width wm, height wm) = Inr new_size"
    and "resize e wm new_size = Inr resized"
  shows "add_image_watermark e base out0 wpath scale pad =
           (case watermark_layer e base resized
                   (watermark_position (width base, height base) new_size pad) of
              Inl err \<Rightarrow> Inl err
            | Inr transparent \<Rightarrow> alpha_composite out0 transparent)"
  using assms by (simp add: add_image_watermark_def)

lemma resize_mode: "resize e im dims = Inr r \<Longrightarrow> mode r = mode im \<and> width r = fst dims \<and> height r = snd dims"
  by (auto simp: resize_def split: sum.splits)

text \<open>
  C5. For a base of 1000 by 800, a watermark of 400 by 300, padding 10 and scale 0.2,
  the double that Python reads the literal as, in either of two ways of writing it, the
  watermark is resized to 200 by 150 and pasted at (790, 640).
\<close>

theorem overlay_scenario_200_150_at_790_640:
  assumes "image_open e wpath = Inr wm" "width wm = 400" "height wm = 300"
    and "width base = 1000" "height base = 800"
    and "s = float_0_2 \<or> s = Finite 3602879701896397 (- 54)"
  shows "watermark_size (width base) s (width wm, height wm) = Inr (200, 150) \<and>
         watermark_position (width base, height base) (200, 150) 10 = (790, 640) \<and>
         add_image_watermark e base out0 wpath s 10 =
           (case resize e wm (200, 150) of
              Inl err \<Rightarrow> Inl err
            | Inr resized \<Rightarrow>
                (case watermark_layer e base resized (790, 640) of
                   Inl err \<Rightarrow> Inl err
                 | Inr transparent \<Rightarrow> alpha_composite out0 transparent)) \<and>
         (\<forall>resized. resize e wm (200, 150) = Inr resized \<longrightarrow>
            width resized = 200 \<and> height resized = 150)"
proof -
  have sz: "watermark_size (width base) s (width wm, height wm) = Inr (200, 150)"
    using assms(6)
  proof
    assume s: "s = float_0_2"
    show ?thesis unfolding s assms(2-5) by (rule watermark_size_scenario)
  next
    assume s: "s = Finite 3602879701896397 (- 54)"
    show ?thesis unfolding s assms(2-5) by (rule watermark_size_scenario_short)
  qed
  have pos: "watermark_position (width base, height base) (200, 150) 10 = (790, 640)"
    using assms(4,5) by (simp add: watermark_position_def)
  have "add_image_watermark e base out0 wpath s 10 =
           (case resize e wm (200, 150) of
              Inl err \<Rightarrow> Inl err
            | Inr resized \<Rightarrow>
                (case watermark_layer e base resized (790, 640) of
                   Inl err \<Rightarrow> Inl err
                 | Inr transparent \<Rightarrow> alpha_composite out0 transparent))"
    using assms(1) sz pos by (simp add: add_image_watermark_def split: sum.splits)
  moreover have "\<forall>resized. resize e wm (200, 150) = Inr resized \<longrightarrow>
            width resized = 200 \<and> height resized = 150"
    using resize_mode by fastforce
  ultimately show ?thesis using sz pos by blast
qed

theorem overlay_scenario_200_150_at_790_640_witness:
  "image_open sample_env ''logo.png'' = Inr sample_logo \<and>
   width sample_logo = 400 \<and> height sample_logo = 300 \<and>
   width sample_photo = 1000 \<and> height sample_photo = 800 \<and>
   watermark_size (width sample_photo) float_0_2 (width sample_logo, height sample_logo)
     = Inr (200, 150) \<and>
   watermark_position (width sample_photo, height sample_photo) (200, 150) 10 = (790, 640)"
proof -
  have o: "image_open sample_env ''logo.png'' = Inr sample_logo"
    by (simp add: sample_env_image_open)
  have d: "width sample_logo = 400" "height sample_logo = 300"
    "width sample_photo = 1000" "height sample_photo = 800"
    by (simp_all add: sample_logo_def sample_photo_def)
  have s: "float_0_2 = float_0_2 \<or> float_0_2 = Finite 3602879701896397 (- 54)"
    by simp
  show ?thesis
    using overlay_scenario_200_150_at_790_640[OF o d s] o d by blast
qed

lemma composite_px_zero: "alpha s = 0 \<Longrightarrow> composite_px d s = d"
  by (cases d, cases s) simp

lemma blend_px_clear: "alpha (blend_px 0 (0, 0, 0, 0) s) = 0"
  by (cases s) (simp add: blend_def div255_def shift255_def)

lemma alpha_composite_zero:
  assumes "alpha_composite im1 im2 = Inr out" "alpha (pixel im2 x y) = 0"
  shows "pixel out x y = pixel im1 x y"
  using assms by (auto simp: alpha_composite_def composite_px_zero split: if_splits)

lemma watermark_layer_outside:
  assumes "watermark_layer e base resized pos = Inr layer"
    and "\<not> in_box pos resized x y"
  shows "alpha (pixel layer x y) = 0"
proof (cases "mode resized")
  case RGBA
  then have "layer = paste_masked (new_image RGBA (width base, height base) (0, 0, 0, 0))
                       resized pos resized"
    using assms(1) by (simp add: watermark_layer_def paste_self_def)
  moreover have "\<not> (0 \<le> x - fst pos \<and> x - fst pos < width resized
                    \<and> 0 \<le> y - snd pos \<and> y - snd pos < height resized)"
    using assms(2) by (auto simp: in_box_def)
  ultimately show ?thesis
    by (auto simp: paste_masked_def new_image_def Let_def)
next
  case RGB
  then show ?thesis using assms(1) by (simp add: watermark_layer_def paste_self_def)
next
  case OtherMode
  then show ?thesis using assms
    by (auto simp: watermark_layer_def paste_self_def new_image_def split: sum.splits)
qed

lemma watermark_layer_transparent:
  assumes "mode resized = RGBA"
    and "watermark_layer e base resized pos = Inr layer"
    and "alpha (pixel resized (x - fst pos) (y - snd pos)) = 0"
  shows "alpha (pixel layer x y) = 0"
proof -
  have "layer = paste_masked (new_image RGBA (width base, height base) (0, 0, 0, 0))
                  resized pos resized"
    using assms(1,2) by (simp add: watermark_layer_def paste_self_def)
  then show ?thesis using assms(3)
    by (auto simp: paste_masked_def new_image_def Let_def blend_px_clear)
qed

text \<open>
  C8. Let the watermark open, resize and be placed at \<open>(px, py)\<close>, and let the branch
  return an image. That image has the pixel of the image before the branch wherever the
  pasted layer has alpha 0; the layer has alpha 0 at every pixel outside the rectangle
  of the resized watermark, and, for an RGBA watermark, at every pixel where the resized
  watermark has alpha 0.
\<close>

theorem overlay_keeps_pixels_under_zero_alpha:
  assumes "image_open e wpath = Inr wm"
    and "watermark_size (width base) scale (width wm, height wm) = Inr new_size"
    and "resize e wm new_size = Inr resized"
    and "watermark_position (width base, height base) new_size pad = (px, py)"
    and "add_image_watermark e base out0 wpath scale pad = Inr out"
  shows "\<exists>layer. watermark_layer e base resized (px, py) = Inr layer \<and>
           (\<forall>x y. alpha (pixel layer x y) = 0 \<longrightarrow> pixel out x y = pixel out0 x y) \<and>
           (\<forall>x y. \<not> (px \<le> x \<and> x < px + fst new_size \<and> py \<le> y \<and> y < py + snd new_size)
                    \<longrightarrow> pixel out x y = pixel out0 x y) \<and>
           (mode wm = RGBA \<longrightarrow>
              (\<forall>x y. alpha (pixel resized (x - px) (y - py)) = 0
                       \<longrightarrow> pixel out x y = pixel out0 x y))"
proof -
  have u: "(case watermark_layer e base resized (px, py) of
              Inl err \<Rightarrow> Inl err
            | Inr transparent \<Rightarrow> alpha_composite out0 transparent) = Inr out"
    using add_image_watermark_unfold[OF assms(1-3), of out0 pad] assms(4,5) by simp
  then obtain layer where l: "watermark_layer e base resized (px, py) = Inr layer"
    and ac: "alpha_composite out0 layer = Inr out"
    by (auto split: sum.splits)
  have keep: "\<forall>x y. alpha (pixel layer x y) = 0 \<longrightarrow> pixel out x y = pixel out0 x y"
    using alpha_composite_zero[OF ac] by blast
  have rm: "mode resized = mode wm" "width resized = fst new_size" "height resized = snd new_size"
    using resize_mode[OF assms(3)] by auto
  have outside: "\<forall>x y. \<not> (px \<le> x \<and> x < px + fst new_size \<and> py \<le> y \<and> y < py + snd new_size)
                    \<longrightarrow> pixel out x y = pixel out0 x y"
  proof (intro allI impI)
    fix x y
    assume "\<not> (px \<le> x \<and> x < px + fst new_size \<and> py \<le> y \<and> y < py + snd new_size)"
    then have "\<not> in_box (px, py) resized x y" using rm by (simp add: in_box_def)
    then have "alpha (pixel layer x y) = 0" by (rule watermark_layer_outside[OF l])
    then show "pixel out x y = pixel out0 x y" using keep by blast
  qed
  have inside: "mode wm = RGBA \<longrightarrow>
              (\<forall>x y. alpha (pixel resized (x - px) (y - py)) = 0
                       \<longrightarrow> pixel out x y = pixel out0 x y)"
  proof (intro impI allI)
    fix x y
    assume m: "mode wm = RGBA" and a: "alpha (pixel resized (x - px) (y - py)) = 0"
    have "alpha (pixel layer x y) = 0"
      using watermark_layer_transparent[OF _ l, of x y] m rm a by simp
    then show "pixel out x y = pixel out0 x y" using keep by blast
  qed
  show ?thesis using l keep outside inside by blast
qed

lemma sample_resize: "resize sample_env sample_logo (200, 150) = Inr sample_resized"
  by (simp add: resize_def sample_env_resample sample_resized_def)

lemma sample_overlay_ok:
  "\<exists>out. add_image_watermark sample_env sample_photo sample_photo ''logo.png'' float_0_2 10 = Inr out"
proof -
  let ?layer = "paste_masked (new_image RGBA (width sample_photo, height sample_photo) (0, 0, 0, 0))
                  sample_resized (790, 640) sample_resized"
  have o: "image_open sample_env ''logo.png'' = Inr sample_logo"
    by (simp add: sample_env_image_open)
  have sz: "watermark_size (width sample_photo) float_0_2 (width sample_logo, height sample_logo)
              = Inr (200, 150)"
    by (simp add: sample_logo_def sample_photo_def watermark_size_scenario)
  have pos: "watermark_position (width sample_photo, height sample_photo) (200, 150) 10 = (790, 640)"
    by (simp add: watermark_position_def sample_photo_def)
  have l: "watermark_layer sample_env sample_photo sample_resized (790, 640) = Inr ?layer"
    by (simp add: watermark_layer_def paste_self_def sample_resized_def sample_logo_def)
  have "\<exists>out. alpha_composite sample_photo ?layer = Inr out"
    by (simp add: alpha_composite_def paste_masked_def new_image_def sample_photo_def)
  then show ?thesis
    using add_image_watermark_unfold[OF o sz sample_resize, of sample_photo 10] pos l
    by simp
qed

theorem overlay_keeps_pixels_under_zero_alpha_witness:
  "image_open sample_env ''logo.png'' = Inr sample_logo \<and>
   resize sample_env sample_logo (200, 150) = Inr sample_resized \<and>
   mode sample_logo = RGBA \<and>
   alpha (pixel sample_resized (800 - 790) (700 - 640)) = 0 \<and>
   (\<exists>out. add_image_watermark sample_env sample_photo sample_photo ''logo.png'' float_0_2 10
             = Inr out \<and>
      pixel out 800 700 = pixel sample_photo 800 700 \<and>
      pixel out 0 0 = pixel sample_photo 0 0)"
proof -
  have o: "image_open sample_env ''logo.png'' = Inr sample_logo"
    by (simp add: sample_env_image_open)
  have sz: "watermark_size (width sample_photo) float_0_2 (width sample_logo, height sample_logo)
              = Inr (200, 150)"
    by (simp add: sample_logo_def sample_photo_def watermark_size_scenario)
  have pos: "watermark_position (width sample_photo, height sample_photo) (200, 150) 10 = (790, 640)"
    by (simp add: watermark_position_def sample_photo_def)
  obtain out where out:
    "add_image_watermark sample_env sample_photo sample_photo ''logo.png'' float_0_2 10 = Inr out"
    using sample_overlay_ok by blast
  have m: "mode sample_logo = RGBA" by (simp add: sample_logo_def)
  have a: "alpha (pixel sample_resized (800 - 790) (700 - 640)) = 0"
    by (simp add: sample_resized_def sample_logo_def)
  note k = overlay_keeps_pixels_under_zero_alpha[OF o sz sample_resize pos out]
  have inside: "\<forall>x y. alpha (pixel sample_resized (x - 790) (y - 640)) = 0
                  \<longrightarrow> pixel out x y = pixel sample_photo x y"
    using k m by blast
  have outside: "\<forall>x y. \<not> (790 \<le> x \<and> x < 790 + fst (200::int, 150::int)
                          \<and> 640 \<le> y \<and> y < 640 + snd (200::int, 150::int))
                  \<longrightarrow> pixel out x y = pixel sample_photo x y"
    using k by blast
  have "pixel out 800 700 = pixel sample_photo 800 700"
    using inside[rule_format, of 800 700] a by simp
  moreover have "pixel out 0 0 = pixel sample_photo 0 0"
    using outside[rule_format, of 0 0] by simp
  ultimately show ?thesis using o sample_resize m a out by blast
qed

section \<open>Properties of apply\_watermark\<close>

lemma save_output_ok:
  assumes "makedirs_dirname e outp = None" "\<forall>im. save e im outp = None"
  shows "\<exists>final. save_output e outp img = Inr final"
  using assms by (simp add: save_output_def Let_def)

lemma overlay_stage_skipped:
  assumes "watermark_path p = None \<or> watermark_path p = Some [] \<or>
           \<not> path_exists e (the (watermark_path p))"
  shows "overlay_stage e p base = Inr base"
  using assms by (auto simp: overlay_stage_def)

lemma text_stage_bbox_fails:
  assumes "text_watermark p = Some t" "t \<noteq> []"
    and "load_font e ''Times New Roman'' (font_size p) st = (fnt, st1)"
    and "textbbox e t fnt = Inl err"
  shows "fst (text_stage e p img st) = img"
  using assms by (simp add: text_stage_def apply_text_watermark_def Let_def)

text \<open>
  C1, as the claim states it, fails: the image-watermark branch has no handler. For a
  watermark path that exists and holds no image, the exception of \<open>Image.open\<close> leaves
  \<open>apply_watermark\<close> and nothing is saved.
\<close>

theorem apply_watermark_overlay_raises:
  "path_exists sample_env ''broken.png'' \<and>
   fst (apply_watermark sample_env
          (default_params ''in/photo.png'' (Some ''broken.png'') ''out/photo.png'') fresh)
     = Inl UnidentifiedImageError"
  by (simp add: apply_watermark_def default_params_def sample_env_image_open
      sample_env_path_exists sample_photo_def overlay_stage_def add_image_watermark_def)

text \<open>
  C1, as the code has it. Let the base image open and be RGBA or convert. A watermark
  path that is \<open>None\<close>, empty or does not exist skips the image watermark and leaves the
  base as it is. Whenever the image-watermark stage returns an image, the pipeline goes
  on whatever the text stage raised: the result of \<open>apply_watermark\<close> is the result of
  saving the image the text stage left, which is the image it was given when no text
  was supplied or when measuring the text raised; and when creating the directory and
  saving succeed, an image is saved.
\<close>

theorem apply_watermark_continues:
  assumes "image_open e (image_path p) = Inr opened"
    and "(if mode opened \<noteq> RGBA then convert_rgba e opened else Inr opened) = Inr base"
  shows "(watermark_path p = None \<or> watermark_path p = Some [] \<or>
            \<not> path_exists e (the (watermark_path p))
          \<longrightarrow> overlay_stage e p base = Inr base) \<and>
         (\<forall>out1. overlay_stage e p base = Inr out1 \<longrightarrow>
            (\<exists>img st'. text_stage e p out1 st = (img, st') \<and>
               apply_watermark e p st = (save_output e (output_path p) img, st') \<and>
               (text_watermark p = None \<longrightarrow> img = out1) \<and>
               (\<forall>t fnt st1 err. text_watermark p = Some t \<and> t \<noteq> [] \<and>
                   load_font e ''Times New Roman'' (font_size p) st = (fnt, st1) \<and>
                   textbbox e t fnt = Inl err \<longrightarrow> img = out1) \<and>
               (makedirs_dirname e (output_path p) = None \<and>
                (\<forall>im. save e im (output_path p) = None)
                \<longrightarrow> (\<exists>final. fst (apply_watermark e p st) = Inr final))))"
proof -
  have skip: "watermark_path p = None \<or> watermark_path p = Some [] \<or>
            \<not> path_exists e (the (watermark_path p))
          \<longrightarrow> overlay_stage e p base = Inr base"
    using overlay_stage_skipped by blast
  have "\<exists>img st'. text_stage e p out1 st = (img, st') \<and>
               apply_watermark e p st = (save_output e (output_path p) img, st') \<and>
               (text_watermark p = None \<longrightarrow> img = out1) \<and>
               (\<forall>t fnt st1 err. text_watermark p = Some t \<and> t \<noteq> [] \<and>
                   load_font e ''Times New Roman'' (font_size p) st = (fnt, st1) \<and>
                   textbbox e t fnt = Inl err \<longrightarrow> img = out1) \<and>
               (makedirs_dirname e (output_path p) = None \<and>
                (\<forall>im. save e im (output_path p) = None)
                \<longrightarrow> (\<exists>final. fst (apply_watermark e p st) = Inr final))"
    if ov: "overlay_stage e p base = Inr out1" for out1
  proof -
    obtain img st' where ts: "text_stage e p out1 st = (img, st')" by (metis surj_pair)
    have aw: "apply_watermark e p st = (save_output e (output_path p) img, st')"
      using assms ov ts by (simp add: apply_watermark_def)
    have none: "text_watermark p = None \<longrightarrow> img = out1"
      using ts by (auto simp: text_stage_def)
    have fails: "\<forall>t fnt st1 err. text_watermark p = Some t \<and> t \<noteq> [] \<and>
                   load_font e ''Times New Roman'' (font_size p) st = (fnt, st1) \<and>
                   textbbox e t fnt = Inl err \<longrightarrow> img = out1"
      using ts text_stage_bbox_fails[of p _ e st _ _ _ out1] by (metis fst_conv)
    have ok: "makedirs_dirname e (output_path p) = None \<and>
                (\<forall>im. save e im (output_path p) = None)
                \<longrightarrow> (\<exists>final. fst (apply_watermark e p st) = Inr final)"
      using aw save_output_ok[of e "output_path p" img] by auto
    show ?thesis
      by (intro exI[of _ img] exI[of _ st'] conjI) (rule ts aw none fails ok)+
  qed
  then show ?thesis using skip by blast
qed

theorem apply_watermark_continues_witness:
  "image_open sample_env (image_path sample_params) = Inr sample_photo \<and>
   \<not> path_exists sample_env (the (watermark_path sample_params)) \<and>
   (\<exists>final. fst (apply_watermark sample_env sample_params fresh) = Inr final)"
proof -
  have o: "image_open sample_env (image_path sample_params) = Inr sample_photo"
    by (simp add: sample_params_def default_params_def sample_env_image_open)
  have c: "(if mode sample_photo \<noteq> RGBA then convert_rgba sample_env sample_photo
            else Inr sample_photo) = Inr sample_photo"
    by (simp add: sample_photo_def)
  have m: "\<not> path_exists sample_env (the (watermark_path sample_params))"
    by (simp add: sample_params_def default_params_def sample_env_path_exists
        liberation_serif_def)
  show ?thesis
    using apply_watermark_continues[OF o c, of fresh] o m
    by (auto simp add: sample_env_save)
qed

end
